theory Spec2Isabelle
  imports Main "HOL-Library.Word"
begin

text \<open>
  A model of the live-translation server: \<^verbatim>\<open>voice-processor.js\<close> (class
  \<^verbatim>\<open>VoiceProcessor\<close>: sentence accumulation from the recognition stream, the
  translate-and-speak round, teardown, the WAV container) and the \<^verbatim>\<open>/join-room\<close> handler
  of \<^verbatim>\<open>server.js\<close>.  The recognition, translation and synthesis services and the
  sockets are outside the program: the model takes their events and answers as inputs
  and records what the program sends to a socket.  Console output is left out.
\<close>

section \<open>Strings, buffers and messages\<close>

text \<open>
  A JavaScript string is a sequence of 16-bit code units; a Node \<^verbatim>\<open>Buffer\<close> is a
  sequence of bytes.  The objects of class \<^verbatim>\<open>VoiceProcessor\<close> live in a store
  indexed by \<open>conn_id\<close>, because sessions and suspended rounds hold references to them.
\<close>

type_synonym code_unit = "16 word"
type_synonym jsstring = "code_unit list"
type_synonym byte = "8 word"
type_synonym buffer = "byte list"
type_synonym conn_id = nat

text \<open>String literals of the source, written as ASCII text.\<close>

definition js :: "string \<Rightarrow> jsstring" where
  "js s = map (\<lambda>c. of_nat (of_char c)) s"

text \<open>
  \<^verbatim>\<open>String.prototype.trim\<close> removes the code units of the ECMAScript productions
  WhiteSpace and LineTerminator from both ends.
\<close>

definition isWhiteSpace :: "code_unit \<Rightarrow> bool" where
  "isWhiteSpace u \<longleftrightarrow>
     u = 0x0009 \<or> u = 0x000A \<or> u = 0x000B \<or> u = 0x000C \<or> u = 0x000D \<or> u = 0x0020 \<or>
     u = 0x00A0 \<or> u = 0x1680 \<or> (0x2000 \<le> u \<and> u \<le> 0x200A) \<or> u = 0x2028 \<or> u = 0x2029 \<or>
     u = 0x202F \<or> u = 0x205F \<or> u = 0x3000 \<or> u = 0xFEFF"

definition trim :: "jsstring \<Rightarrow> jsstring" where
  "trim s = rev (dropWhile isWhiteSpace (rev (dropWhile isWhiteSpace s)))"

text \<open>The value \<^verbatim>\<open>x || d\<close> for a string \<open>x\<close> that may be \<^verbatim>\<open>null\<close> or undefined.\<close>

definition truthy :: "jsstring option \<Rightarrow> bool" where
  "truthy x \<longleftrightarrow> (case x of None \<Rightarrow> False | Some s \<Rightarrow> s \<noteq> [])"

definition orElse :: "jsstring option \<Rightarrow> jsstring \<Rightarrow> jsstring" where
  "orElse x d = (case x of None \<Rightarrow> d | Some s \<Rightarrow> if s = [] then d else s)"

text \<open>The events the server writes to a socket (the JSON objects given to \<^verbatim>\<open>ws.send\<close>).\<close>

datatype message =
    TranscriptInterim jsstring
  | Translation (originalText: jsstring) (translatedText: jsstring)
      (fromUser: "jsstring option") (fromLanguage: "jsstring option")
      (toLanguage: "jsstring option")
  | AudioPlayback buffer
  | UserJoined "jsstring option" "jsstring option"
  | UserLeft

text \<open>
  A socket: its \<^verbatim>\<open>readyState\<close> (1 is open) and the messages given to \<^verbatim>\<open>send\<close> so far,
  oldest first.
\<close>

record websocket =
  readyState :: nat
  sent :: "message list"

section \<open>The connection object (class VoiceProcessor)\<close>

record connection =
  ws :: websocket
  roomId :: "jsstring option"
  userType :: "jsstring option"
  myLanguage :: "jsstring option"
  myName :: "jsstring option"
  recognizeStream :: bool
  isStreaming :: bool
  streamCreatedAt :: nat
  sentence :: jsstring
  lastInterim :: jsstring
  lastSentence :: jsstring
  sentenceTimer :: bool
  isProcessing :: bool

text \<open>
  \<open>recognizeStream\<close> and \<open>sentenceTimer\<close> say whether the field holds a handle
  (\<open>True\<close>) or \<^verbatim>\<open>null\<close>.  The state the constructor leaves, for a socket \<open>sock\<close>:
\<close>

definition newConnection :: "websocket \<Rightarrow> connection" where
  "newConnection sock =
     \<lparr> ws = sock, roomId = None, userType = None, myLanguage = None, myName = None,
       recognizeStream = False, isStreaming = False, streamCreatedAt = 0,
       sentence = [], lastInterim = [], lastSentence = [], sentenceTimer = False,
       isProcessing = False \<rparr>"

text \<open>\<^verbatim>\<open>_sendToUI\<close>: writes to the own socket when it is open (\<^verbatim>\<open>readyState === 1\<close>).\<close>

definition sendToUI :: "connection \<Rightarrow> message \<Rightarrow> connection" where
  "sendToUI c m =
     (if readyState (ws c) = 1 then c\<lparr>ws := (ws c)\<lparr>sent := sent (ws c) @ [m]\<rparr>\<rparr> else c)"

section \<open>Sentence accumulation\<close>

text \<open>
  A recognition response as \<^verbatim>\<open>_handleSTTData\<close> reads it: \<^verbatim>\<open>response.results?.[0]\<close>,
  then \<^verbatim>\<open>result.alternatives?.[0]?.transcript?.trim()\<close> and \<^verbatim>\<open>result.isFinal\<close>.
  \<open>None\<close> stands for a missing (undefined) property.
\<close>

record alternative =
  transcript :: "jsstring option"

record stt_result =
  alternatives :: "alternative list option"
  isFinal :: bool

record stt_response =
  results :: "stt_result list option"

definition firstResult :: "stt_response \<Rightarrow> stt_result option" where
  "firstResult response =
     (case results response of None \<Rightarrow> None | Some [] \<Rightarrow> None | Some (r # _) \<Rightarrow> Some r)"

definition transcriptOf :: "stt_result \<Rightarrow> jsstring option" where
  "transcriptOf result =
     (case alternatives result of
        None \<Rightarrow> None
      | Some [] \<Rightarrow> None
      | Some (a # _) \<Rightarrow> (case transcript a of None \<Rightarrow> None | Some t \<Rightarrow> Some (trim t)))"

definition space :: jsstring where
  "space = [0x0020]"

text \<open>\<^verbatim>\<open>_resetSentenceTimer\<close>: the old timer is cleared and a new one is armed.\<close>

definition resetSentenceTimer :: "connection \<Rightarrow> connection" where
  "resetSentenceTimer c = c\<lparr>sentenceTimer := True\<rparr>"

definition handleSTTData :: "connection \<Rightarrow> stt_response \<Rightarrow> connection" where
  "handleSTTData c response =
     (case firstResult response of
        None \<Rightarrow> c
      | Some result \<Rightarrow>
          (case transcriptOf result of
             None \<Rightarrow> c
           | Some t \<Rightarrow>
               if t = [] then c
               else if isFinal result then
                 resetSentenceTimer
                   (c\<lparr>sentence := (if sentence c \<noteq> [] then sentence c @ space @ t else t),
                      lastInterim := []\<rparr>)
               else
                 (let preview = (if sentence c \<noteq> [] then sentence c @ space @ t else t)
                  in resetSentenceTimer
                       (sendToUI (c\<lparr>lastInterim := preview\<rparr>) (TranscriptInterim preview)))))"

text \<open>
  \<^verbatim>\<open>_finalizeSentence\<close>.  The second component of the result is the argument of the
  call \<^verbatim>\<open>this._translateAndSpeak(finalSentence)\<close> that ends the function, \<open>None\<close>
  when the function returns at its guard without making that call.
\<close>

definition finalizeSentence :: "connection \<Rightarrow> connection \<times> jsstring option" where
  "finalizeSentence c =
     (let c1 = c\<lparr>sentenceTimer := False\<rparr> in
      if sentence c1 = [] \<or> sentence c1 = lastSentence c1 then (c1, None)
      else
        (let finalSentence = trim (sentence c1)
         in (c1\<lparr>lastSentence := finalSentence, sentence := []\<rparr>, Some finalSentence)))"

text \<open>
  \<^verbatim>\<open>_handleSTTError\<close>.  The error itself only selects the log line; the recovery is
  the same for every error.  The result carries the sentence handed to
  \<^verbatim>\<open>_translateAndSpeak\<close> by the nested \<^verbatim>\<open>_finalizeSentence\<close>, if any.
\<close>

definition handleSTTError :: "connection \<Rightarrow> connection \<times> jsstring option" where
  "handleSTTError c =
     (let c1 = c\<lparr>isStreaming := False, recognizeStream := False\<rparr>;
          c2 = (if sentence c1 = [] \<and> lastInterim c1 \<noteq> [] \<and> lastInterim c1 \<noteq> lastSentence c1
                then c1\<lparr>sentence := lastInterim c1\<rparr> else c1);
          (c3, d) = (if sentence c2 \<noteq> [] \<and> sentence c2 \<noteq> lastSentence c2
                     then finalizeSentence c2 else (c2, None))
      in (c3\<lparr>lastInterim := []\<rparr>, d))"

text \<open>The callback armed by \<^verbatim>\<open>_resetSentenceTimer\<close>.\<close>

definition timerFired :: "connection \<Rightarrow> connection \<times> jsstring option" where
  "timerFired c = finalizeSentence c"

text \<open>
  The head of \<^verbatim>\<open>cleanup\<close>: the timer is cleared and a pending sentence is flushed
  through \<^verbatim>\<open>_finalizeSentence\<close>.
\<close>

definition flushPending :: "connection \<Rightarrow> connection \<times> jsstring option" where
  "flushPending c =
     (let c1 = c\<lparr>sentenceTimer := False\<rparr> in
      if sentence c1 \<noteq> [] \<and> sentence c1 \<noteq> lastSentence c1 then finalizeSentence c1
      else (c1, None))"

text \<open>\<^verbatim>\<open>_stopStream\<close> (the stream handle is ended and dropped).\<close>

definition stopStream :: "connection \<Rightarrow> connection" where
  "stopStream c = c\<lparr>recognizeStream := False, isStreaming := False\<rparr>"

section \<open>The audio container\<close>

datatype exn = RangeError

text \<open>
  \<^verbatim>\<open>buf.write(string, offset)\<close> for an ASCII string: the bytes that fit are stored.
\<close>

definition ascii :: "string \<Rightarrow> buffer" where
  "ascii s = map (\<lambda>c. of_nat (of_char c)) s"

fun writeBytes :: "buffer \<Rightarrow> buffer \<Rightarrow> nat \<Rightarrow> buffer" where
  "writeBytes h [] off = h"
| "writeBytes h (b # bs) off = writeBytes (h[off := b]) bs (Suc off)"

text \<open>
  \<^verbatim>\<open>writeUInt32LE\<close> and \<^verbatim>\<open>writeUInt16LE\<close> throw a RangeError when the value does not
  fit the field or the field does not fit the buffer; otherwise the value is stored
  low byte first.  Values are integers.
\<close>

fun leBytes :: "nat \<Rightarrow> int \<Rightarrow> buffer" where
  "leBytes 0 v = []"
| "leBytes (Suc n) v = word_of_int v # leBytes n (v div 256)"

definition writeUInt32LE :: "buffer \<Rightarrow> int \<Rightarrow> nat \<Rightarrow> exn + buffer" where
  "writeUInt32LE h v off =
     (if v < 0 \<or> 4294967295 < v \<or> length h < off + 4 then Inl RangeError
      else Inr (writeBytes h (leBytes 4 v) off))"

definition writeUInt16LE :: "buffer \<Rightarrow> int \<Rightarrow> nat \<Rightarrow> exn + buffer" where
  "writeUInt16LE h v off =
     (if v < 0 \<or> 65535 < v \<or> length h < off + 2 then Inl RangeError
      else Inr (writeBytes h (leBytes 2 v) off))"

definition andThen :: "exn + 'a \<Rightarrow> ('a \<Rightarrow> exn + 'b) \<Rightarrow> exn + 'b" where
  "andThen r f = (case r of Inl e \<Rightarrow> Inl e | Inr x \<Rightarrow> f x)"

definition toWav :: "buffer \<Rightarrow> int \<Rightarrow> exn + buffer" where
  "toWav pcm rate =
     andThen (Inr (writeBytes (replicate 44 0) (ascii ''RIFF'') 0)) (\<lambda>h.
     andThen (writeUInt32LE h (36 + int (length pcm)) 4) (\<lambda>h.
     andThen (Inr (writeBytes h (ascii ''WAVE'') 8)) (\<lambda>h.
     andThen (Inr (writeBytes h (ascii ''fmt '') 12)) (\<lambda>h.
     andThen (writeUInt32LE h 16 16) (\<lambda>h.
     andThen (writeUInt16LE h 1 20) (\<lambda>h.
     andThen (writeUInt16LE h 1 22) (\<lambda>h.
     andThen (writeUInt32LE h rate 24) (\<lambda>h.
     andThen (writeUInt32LE h (rate * 2) 28) (\<lambda>h.
     andThen (writeUInt16LE h 2 32) (\<lambda>h.
     andThen (writeUInt16LE h 16 34) (\<lambda>h.
     andThen (Inr (writeBytes h (ascii ''data'') 36)) (\<lambda>h.
     andThen (writeUInt32LE h (int (length pcm)) 40) (\<lambda>h.
     Inr (h @ pcm))))))))))))))"

text \<open>Reading a header back: the unsigned little-endian value of a field.\<close>

fun readLE :: "buffer \<Rightarrow> int" where
  "readLE [] = 0"
| "readLE (b # bs) = uint b + 256 * readLE bs"

definition readUInt32LE :: "buffer \<Rightarrow> nat \<Rightarrow> int" where
  "readUInt32LE buf off = readLE (take 4 (drop off buf))"

definition readUInt16LE :: "buffer \<Rightarrow> nat \<Rightarrow> int" where
  "readUInt16LE buf off = readLE (take 2 (drop off buf))"

definition field :: "buffer \<Rightarrow> nat \<Rightarrow> nat \<Rightarrow> buffer" where
  "field buf off n = take n (drop off buf)"

section \<open>Translation\<close>

text \<open>\<^verbatim>\<open>s.split(sep)\<close> for a separator of one code unit; the result is never empty.\<close>

fun splitOn :: "code_unit \<Rightarrow> jsstring \<Rightarrow> jsstring list" where
  "splitOn sep [] = [[]]"
| "splitOn sep (u # us) =
     (if u = sep then [] # splitOn sep us
      else (u # hd (splitOn sep us)) # tl (splitOn sep us))"

definition hyphen :: code_unit where
  "hyphen = 0x002D"

text \<open>\<^verbatim>\<open>(lang || "en").split("-")[0]\<close>\<close>

definition langBase :: "jsstring option \<Rightarrow> jsstring" where
  "langBase lang = hd (splitOn hyphen (orElse lang (js ''en'')))"

text \<open>
  \<^verbatim>\<open>_translate\<close> up to its only await: either it returns the text at once, or it
  calls the translation engine with the text and the two base tags.
\<close>

datatype translateStep =
    Resolved jsstring
  | CallEngine jsstring jsstring jsstring

definition translate :: "jsstring \<Rightarrow> jsstring option \<Rightarrow> jsstring option \<Rightarrow> translateStep" where
  "translate text from to =
     (let fromLang = langBase from; toLang = langBase to
      in if fromLang = toLang then Resolved text else CallEngine text fromLang toLang)"

text \<open>
  The rest of \<^verbatim>\<open>_translate\<close>: the engine's result, or the text when the call failed
  (\<open>None\<close>).
\<close>

definition translated :: "jsstring \<Rightarrow> jsstring option \<Rightarrow> jsstring" where
  "translated text outcome = (case outcome of Some result \<Rightarrow> result | None \<Rightarrow> text)"

section \<open>Sessions and the translation relay\<close>

record session =
  creatorLanguage :: "jsstring option"
  creatorName :: "jsstring option"
  participantLanguage :: "jsstring option"
  participantName :: "jsstring option"
  callerConnection :: "conn_id option"
  receiverConnection :: "conn_id option"
  createdAt :: nat

text \<open>
  The asynchronous functions run on Node's event loop.  An \<^verbatim>\<open>await\<close> suspends its
  function; the function resumes as a job of the promise job queue once the awaited
  promise has settled.  A \<open>job\<close> is such a resumption with the value it resumes with;
  an \<open>engineCall\<close> is a suspended function whose promise waits for an answer of the
  translation or synthesis service.

  \<^item> \<open>AfterTranslate this partner text translated\<close>: \<^verbatim>\<open>_translateAndSpeak\<close> after
    \<^verbatim>\<open>await this._translate(...)\<close>;
  \<^item> \<open>AfterTts this partner audio\<close>: \<^verbatim>\<open>_translateAndSpeak\<close> after \<^verbatim>\<open>await this._tts(...)\<close>,
    \<open>None\<close> when \<^verbatim>\<open>_tts\<close> gave no audio;
  \<^item> \<open>AfterStopStream this\<close>: \<^verbatim>\<open>cleanup\<close> after \<^verbatim>\<open>await this._stopStream()\<close>.
\<close>

datatype job =
    AfterTranslate conn_id conn_id jsstring jsstring
  | AfterTts conn_id conn_id "buffer option"
  | AfterStopStream conn_id

datatype engineCall =
    TranslateCall conn_id conn_id jsstring jsstring jsstring
  | TtsCall conn_id conn_id jsstring "jsstring option"

record world =
  conns :: "conn_id \<Rightarrow> connection"
  activeSessions :: "jsstring \<rightharpoonup> session"
  jobs :: "job list"
  engine :: "engineCall list"

definition updateConn :: "world \<Rightarrow> conn_id \<Rightarrow> (connection \<Rightarrow> connection) \<Rightarrow> world" where
  "updateConn w c f = w\<lparr>conns := (conns w)(c := f (conns w c))\<rparr>"

text \<open>\<^verbatim>\<open>this.activeSessions.get(this.roomId)\<close>\<close>

definition lookupSession :: "world \<Rightarrow> jsstring option \<Rightarrow> session option" where
  "lookupSession w r = (case r of None \<Rightarrow> None | Some k \<Rightarrow> activeSessions w k)"

definition partnerOf :: "connection \<Rightarrow> session \<Rightarrow> conn_id option" where
  "partnerOf c s =
     (if userType c = Some (js ''caller'') then receiverConnection s else callerConnection s)"

text \<open>
  \<^verbatim>\<open>_translateAndSpeak\<close> from its call to its first await or to its return, whichever
  comes first.  Every return inside the \<^verbatim>\<open>try\<close> passes the \<^verbatim>\<open>finally\<close> block.
\<close>

definition translateAndSpeak :: "world \<Rightarrow> conn_id \<Rightarrow> jsstring \<Rightarrow> world" where
  "translateAndSpeak w c text =
     (if isProcessing (conns w c) \<or> text = [] then w
      else
        (let w1 = updateConn w c (\<lambda>x. x\<lparr>isProcessing := True\<rparr>);
             finally = (\<lambda>v. updateConn v c (\<lambda>x. x\<lparr>isProcessing := False\<rparr>))
         in case lookupSession w1 (roomId (conns w1 c)) of
              None \<Rightarrow> finally w1
            | Some s \<Rightarrow>
                (case partnerOf (conns w1 c) s of
                   None \<Rightarrow> finally w1
                 | Some p \<Rightarrow>
                     if \<not> truthy (myLanguage (conns w1 p)) then finally w1
                     else
                       (case translate text (myLanguage (conns w1 c)) (myLanguage (conns w1 p)) of
                          Resolved t \<Rightarrow> w1\<lparr>jobs := jobs w1 @ [AfterTranslate c p text t]\<rparr>
                        | CallEngine t f l \<Rightarrow>
                            w1\<lparr>engine := engine w1 @ [TranslateCall c p text f l]\<rparr>))))"

text \<open>
  The resumption after the translation: the update goes to both sockets, then
  \<^verbatim>\<open>_tts\<close> calls the synthesis service (the voice it selects from the language is part
  of the request only and is left out).
\<close>

definition deliver :: "world \<Rightarrow> conn_id \<Rightarrow> conn_id \<Rightarrow> jsstring \<Rightarrow> jsstring \<Rightarrow> world" where
  "deliver w c p text tr =
     (let dat = Translation text tr (userType (conns w c)) (myLanguage (conns w c))
                  (myLanguage (conns w p));
          w1 = updateConn w c (\<lambda>x. sendToUI x dat)
      in updateConn w1 p (\<lambda>x. sendToUI x dat))"

definition afterTranslate :: "world \<Rightarrow> conn_id \<Rightarrow> conn_id \<Rightarrow> jsstring \<Rightarrow> jsstring \<Rightarrow> world" where
  "afterTranslate w c p text tr =
     (let w2 = deliver w c p text tr
      in w2\<lparr>engine := engine w2 @ [TtsCall c p tr (myLanguage (conns w2 p))]\<rparr>)"

text \<open>
  The resumption after the synthesis: the audio goes to the partner when there is
  audio and the partner's socket is open.  An exception of \<^verbatim>\<open>_toWav\<close> is caught by the
  \<^verbatim>\<open>catch\<close> block, which only logs; the \<^verbatim>\<open>finally\<close> block runs in every case.
\<close>

definition afterTts :: "world \<Rightarrow> conn_id \<Rightarrow> conn_id \<Rightarrow> buffer option \<Rightarrow> world" where
  "afterTts w c p audio =
     (let w1 = (case audio of
                  None \<Rightarrow> w
                | Some pcm \<Rightarrow>
                    if readyState (ws (conns w p)) = 1 then
                      (case toWav pcm 48000 of
                         Inl e \<Rightarrow> w
                       | Inr wav \<Rightarrow>
                           updateConn w p
                             (\<lambda>x. x\<lparr>ws := (ws x)\<lparr>sent := sent (ws x) @ [AudioPlayback wav]\<rparr>\<rparr>))
                    else w)
      in updateConn w1 c (\<lambda>x. x\<lparr>isProcessing := False\<rparr>))"

text \<open>
  The clients of the two services return promises, and a service answers in a later
  turn of the event loop: the call leaves the list and the function that waited for it
  becomes a job (the resumption of \<^verbatim>\<open>_translate\<close> or \<^verbatim>\<open>_tts\<close> and that of its caller,
  which follows it in the queue, are one job here).  \<open>None\<close> is a failed call:
  \<^verbatim>\<open>_translate\<close> then returns the text, \<^verbatim>\<open>_tts\<close> returns \<^verbatim>\<open>null\<close>.
\<close>

definition translateSettles :: "world \<Rightarrow> engineCall \<Rightarrow> jsstring option \<Rightarrow> world" where
  "translateSettles w call outcome =
     (case call of
        TranslateCall c p text f l \<Rightarrow>
          if call \<in> set (engine w)
          then w\<lparr>engine := remove1 call (engine w),
                 jobs := jobs w @ [AfterTranslate c p text (translated text outcome)]\<rparr>
          else w
      | TtsCall c p tr l \<Rightarrow> w)"

definition ttsSettles :: "world \<Rightarrow> engineCall \<Rightarrow> buffer option \<Rightarrow> world" where
  "ttsSettles w call outcome =
     (case call of
        TranslateCall c p text f l \<Rightarrow> w
      | TtsCall c p tr l \<Rightarrow>
          if call \<in> set (engine w)
          then w\<lparr>engine := remove1 call (engine w), jobs := jobs w @ [AfterTts c p outcome]\<rparr>
          else w)"

text \<open>\<^verbatim>\<open>_notifyPartner\<close>\<close>

definition notifyPartner :: "world \<Rightarrow> conn_id \<Rightarrow> message \<Rightarrow> world" where
  "notifyPartner w c m =
     (case lookupSession w (roomId (conns w c)) of
        None \<Rightarrow> w
      | Some s \<Rightarrow>
          (case partnerOf (conns w c) s of
             None \<Rightarrow> w
           | Some p \<Rightarrow>
               if readyState (ws (conns w p)) = 1
               then updateConn w p (\<lambda>x. x\<lparr>ws := (ws x)\<lparr>sent := sent (ws x) @ [m]\<rparr>\<rparr>)
               else w))"

text \<open>
  \<^verbatim>\<open>cleanup\<close> up to \<^verbatim>\<open>await this._stopStream()\<close>.  \<open>relay\<close> is the call of
  \<^verbatim>\<open>_translateAndSpeak\<close> that \<^verbatim>\<open>_finalizeSentence\<close> makes or does not make.
\<close>

definition relay :: "world \<Rightarrow> conn_id \<Rightarrow> jsstring option \<Rightarrow> world" where
  "relay w c d = (case d of None \<Rightarrow> w | Some text \<Rightarrow> translateAndSpeak w c text)"

definition cleanup :: "world \<Rightarrow> conn_id \<Rightarrow> world" where
  "cleanup w c =
     (let (c1, d) = flushPending (conns w c);
          w1 = relay (w\<lparr>conns := (conns w)(c := c1)\<rparr>) c d;
          w2 = updateConn w1 c stopStream
      in w2\<lparr>jobs := jobs w2 @ [AfterStopStream c]\<rparr>)"

text \<open>The rest of \<^verbatim>\<open>cleanup\<close>: the connection leaves the slots it holds, the partner is told.\<close>

definition detach :: "world \<Rightarrow> conn_id \<Rightarrow> world" where
  "detach w c =
     (case roomId (conns w c) of
        None \<Rightarrow> w
      | Some r \<Rightarrow>
          (case activeSessions w r of
             None \<Rightarrow> w
           | Some s \<Rightarrow>
               (let s1 = (if callerConnection s = Some c then s\<lparr>callerConnection := None\<rparr> else s);
                    s2 = (if receiverConnection s1 = Some c
                          then s1\<lparr>receiverConnection := None\<rparr> else s1)
                in w\<lparr>activeSessions := (activeSessions w)(r \<mapsto> s2)\<rparr>)))"

definition afterStopStream :: "world \<Rightarrow> conn_id \<Rightarrow> world" where
  "afterStopStream w c = notifyPartner (detach w c) c UserLeft"

text \<open>
  The job queue is emptied in order before the event loop takes its next event.  The
  fuel is the number of steps; \<open>drainAll\<close> gives as many as there are jobs, which is
  enough because no resumption queues a job.
\<close>

fun runJob :: "world \<Rightarrow> job \<Rightarrow> world" where
  "runJob w (AfterTranslate c p text tr) = afterTranslate w c p text tr"
| "runJob w (AfterTts c p audio) = afterTts w c p audio"
| "runJob w (AfterStopStream c) = afterStopStream w c"

fun drain :: "nat \<Rightarrow> world \<Rightarrow> world" where
  "drain 0 w = w"
| "drain (Suc n) w =
     (case jobs w of [] \<Rightarrow> w | j # rest \<Rightarrow> drain n (runJob (w\<lparr>jobs := rest\<rparr>) j))"

definition drainAll :: "world \<Rightarrow> world" where
  "drainAll w = drain (length (jobs w)) w"

text \<open>
  The handlers as events of the event loop: the timer callback, the two callbacks of the
  recognition stream, the teardown, and the answers of the two services.  In
  \<open>onSttError\<close> the call of the relay is made on the state the handler leaves; the
  source makes it before the handler clears \<open>lastInterim\<close>, which gives the same state
  (lemma \<open>onSttError_source_order\<close>).
\<close>

definition onSttData :: "world \<Rightarrow> conn_id \<Rightarrow> stt_response \<Rightarrow> world" where
  "onSttData w c r = updateConn w c (\<lambda>x. handleSTTData x r)"

definition onSttError :: "world \<Rightarrow> conn_id \<Rightarrow> world" where
  "onSttError w c =
     (let (c1, d) = handleSTTError (conns w c) in relay (w\<lparr>conns := (conns w)(c := c1)\<rparr>) c d)"

definition onTimer :: "world \<Rightarrow> conn_id \<Rightarrow> world" where
  "onTimer w c =
     (let (c1, d) = timerFired (conns w c) in relay (w\<lparr>conns := (conns w)(c := c1)\<rparr>) c d)"

datatype event =
    SttData conn_id stt_response
  | SttError conn_id
  | TimerFired conn_id
  | Closed conn_id
  | TranslateAnswer engineCall "jsstring option"
  | TtsAnswer engineCall "buffer option"

fun handle :: "world \<Rightarrow> event \<Rightarrow> world" where
  "handle w (SttData c r) = onSttData w c r"
| "handle w (SttError c) = onSttError w c"
| "handle w (TimerFired c) = onTimer w c"
| "handle w (Closed c) = cleanup w c"
| "handle w (TranslateAnswer call outcome) = translateSettles w call outcome"
| "handle w (TtsAnswer call outcome) = ttsSettles w call outcome"

text \<open>
  One turn of the event loop: the handler of the event, then the jobs it queued.
\<close>

definition turn :: "world \<Rightarrow> event \<Rightarrow> world" where
  "turn w e = drainAll (handle w e)"

text \<open>
  \<^verbatim>\<open>_translateAndSpeak\<close> as one uninterrupted run, for services that answer \<open>tr\<close> to
  the translation request and \<open>sy\<close> to the synthesis request (\<open>None\<close>: the call fails).
\<close>

definition translateAndSpeakRun ::
  "world \<Rightarrow> conn_id \<Rightarrow> jsstring \<Rightarrow> (jsstring \<Rightarrow> jsstring \<Rightarrow> jsstring \<Rightarrow> jsstring option) \<Rightarrow>
     (jsstring \<Rightarrow> jsstring option \<Rightarrow> buffer option) \<Rightarrow> world" where
  "translateAndSpeakRun w c text tr sy =
     (if isProcessing (conns w c) \<or> text = [] then w
      else
        (let w1 = updateConn w c (\<lambda>x. x\<lparr>isProcessing := True\<rparr>);
             finally = (\<lambda>v. updateConn v c (\<lambda>x. x\<lparr>isProcessing := False\<rparr>))
         in case lookupSession w1 (roomId (conns w1 c)) of
              None \<Rightarrow> finally w1
            | Some s \<Rightarrow>
                (case partnerOf (conns w1 c) s of
                   None \<Rightarrow> finally w1
                 | Some p \<Rightarrow>
                     if \<not> truthy (myLanguage (conns w1 p)) then finally w1
                     else
                       (let t = (case translate text (myLanguage (conns w1 c))
                                        (myLanguage (conns w1 p)) of
                                   Resolved t \<Rightarrow> t
                                 | CallEngine x f l \<Rightarrow> translated x (tr x f l));
                            w2 = deliver w1 c p text t;
                            audio = sy t (myLanguage (conns w2 p))
                        in afterTts w2 c p audio))))"

text \<open>The rounds of a connection that are suspended: the single-flight invariant counts them.\<close>

fun jobOwner :: "job \<Rightarrow> conn_id option" where
  "jobOwner (AfterTranslate c p text tr) = Some c"
| "jobOwner (AfterTts c p audio) = Some c"
| "jobOwner (AfterStopStream c) = None"

fun callOwner :: "engineCall \<Rightarrow> conn_id" where
  "callOwner (TranslateCall c p text f l) = c"
| "callOwner (TtsCall c p tr l) = c"

definition inFlight :: "world \<Rightarrow> conn_id \<Rightarrow> nat" where
  "inFlight w c =
     length (filter (\<lambda>j. jobOwner j = Some c) (jobs w)) +
     length (filter (\<lambda>e. callOwner e = c) (engine w))"

definition singleFlight :: "world \<Rightarrow> conn_id \<Rightarrow> bool" where
  "singleFlight w c \<longleftrightarrow> inFlight w c = (if isProcessing (conns w c) then 1 else 0)"

text \<open>
  Services that answer \<open>tr\<close> and \<open>sy\<close>: the oldest pending call of a connection is
  answered in a turn of its own.
\<close>

fun answer ::
  "(jsstring \<Rightarrow> jsstring \<Rightarrow> jsstring \<Rightarrow> jsstring option) \<Rightarrow>
     (jsstring \<Rightarrow> jsstring option \<Rightarrow> buffer option) \<Rightarrow> world \<Rightarrow> engineCall \<Rightarrow> world" where
  "answer tr sy w (TranslateCall c p t f l) =
     turn w (TranslateAnswer (TranslateCall c p t f l) (tr t f l))"
| "answer tr sy w (TtsCall c p t l) = turn w (TtsAnswer (TtsCall c p t l) (sy t l))"

definition answerNext ::
  "(jsstring \<Rightarrow> jsstring \<Rightarrow> jsstring \<Rightarrow> jsstring option) \<Rightarrow>
     (jsstring \<Rightarrow> jsstring option \<Rightarrow> buffer option) \<Rightarrow> conn_id \<Rightarrow> world \<Rightarrow> world" where
  "answerNext tr sy c w =
     (case filter (\<lambda>e. callOwner e = c) (engine w) of
        [] \<Rightarrow> w
      | call # _ \<Rightarrow> answer tr sy w call)"

section \<open>The room registry (server.js)\<close>

text \<open>
  The body of a \<^verbatim>\<open>POST /join-room\<close> request and the response.  A request without a
  body makes the destructuring throw, which the handler answers with status 500.
\<close>

record joinBody =
  reqRoomId :: "jsstring option"
  reqLanguage :: "jsstring option"
  reqName :: "jsstring option"

datatype responseBody =
    ErrorBody jsstring
  | JoinedBody "jsstring option" "jsstring option"

definition joinRoom ::
  "(jsstring \<rightharpoonup> session) \<Rightarrow> joinBody option \<Rightarrow> (nat \<times> responseBody) \<times> (jsstring \<rightharpoonup> session)" where
  "joinRoom sessions body =
     (case body of
        None \<Rightarrow> ((500, ErrorBody (js ''Failed to join room'')), sessions)
      | Some b \<Rightarrow>
          (case reqRoomId b of
             None \<Rightarrow> ((404, ErrorBody (js ''Room not found'')), sessions)
           | Some r \<Rightarrow>
               (case sessions r of
                  None \<Rightarrow> ((404, ErrorBody (js ''Room not found'')), sessions)
                | Some s \<Rightarrow>
                    if truthy (participantLanguage s)
                    then ((400, ErrorBody (js ''Room is full'')), sessions)
                    else
                      (let s1 = s\<lparr>participantLanguage := reqLanguage b,
                                  participantName := reqName b\<rparr>
                       in ((200, JoinedBody (creatorLanguage s1) (creatorName s1)),
                           sessions(r \<mapsto> s1))))))"

section \<open>Notions used to state the properties\<close>

text \<open>
  What \<^verbatim>\<open>_handleSTTData\<close> takes from a response: nothing when it returns early, else
  the flag and the trimmed, non-empty transcript.
\<close>

definition fragment :: "stt_response \<Rightarrow> (bool \<times> jsstring) option" where
  "fragment r =
     (case firstResult r of
        None \<Rightarrow> None
      | Some res \<Rightarrow>
          (case transcriptOf res of
             None \<Rightarrow> None
           | Some t \<Rightarrow> if t = [] then None else Some (isFinal res, t)))"

text \<open>The texts of the final events of a sequence, in arrival order.\<close>

definition finalTexts :: "stt_response list \<Rightarrow> jsstring list" where
  "finalTexts evs =
     List.map_filter (\<lambda>r. case fragment r of Some (True, t) \<Rightarrow> Some t | _ \<Rightarrow> None) evs"

text \<open>An event that \<^verbatim>\<open>_handleSTTData\<close> treats as interim.\<close>

definition interimEvent :: "stt_response \<Rightarrow> bool" where
  "interimEvent r = (case firstResult r of None \<Rightarrow> False | Some res \<Rightarrow> \<not> isFinal res)"

text \<open>The space-joined concatenation of a list of texts.\<close>

fun joinSpace :: "jsstring list \<Rightarrow> jsstring" where
  "joinSpace [] = []"
| "joinSpace [x] = x"
| "joinSpace (x # y # ys) = x @ space @ joinSpace (y # ys)"

text \<open>The committed text after a final fragment \<open>t\<close>.\<close>

definition append_fragment :: "jsstring \<Rightarrow> jsstring \<Rightarrow> jsstring" where
  "append_fragment s t = (if s \<noteq> [] then s @ space @ t else t)"

text \<open>
  The committed text a connection holds: what final events have accumulated in
  \<open>sentence\<close> and no finalize has cleared.
\<close>

definition carried :: "connection \<Rightarrow> jsstring list" where
  "carried c = (if sentence c = [] then [] else [sentence c])"

text \<open>A text that \<open>trim\<close> leaves as it is.\<close>

definition trimmed :: "jsstring \<Rightarrow> bool" where
  "trimmed s \<longleftrightarrow> s = [] \<or> (\<not> isWhiteSpace (hd s) \<and> \<not> isWhiteSpace (last s))"

text \<open>
  The accumulator's texts are trimmed in every state the handlers produce from a new
  connection (lemmas \<open>accInv_newConnection\<close> to \<open>accInv_flushPending\<close> below).
\<close>

definition accInv :: "connection \<Rightarrow> bool" where
  "accInv c \<longleftrightarrow> trimmed (sentence c) \<and> trimmed (lastInterim c)"

text \<open>The sentences handed to the relay by a sequence of calls.\<close>

definition dispatched :: "jsstring option list \<Rightarrow> jsstring list" where
  "dispatched ds = List.map_filter id ds"

text \<open>The part of a language tag before its first hyphen.\<close>

definition baseSubtag :: "jsstring \<Rightarrow> jsstring" where
  "baseSubtag tag = takeWhile (\<lambda>u. u \<noteq> hyphen) tag"

text \<open>The header \<^verbatim>\<open>_toWav\<close> writes for \<open>n\<close> data bytes, field by field.\<close>

definition wavHeader :: "int \<Rightarrow> int \<Rightarrow> buffer" where
  "wavHeader n rate =
     ascii ''RIFF'' @ leBytes 4 (36 + n) @ ascii ''WAVE'' @ ascii ''fmt '' @ leBytes 4 16 @
     leBytes 2 1 @ leBytes 2 1 @ leBytes 4 rate @ leBytes 4 (rate * 2) @ leBytes 2 2 @
     leBytes 2 16 @ ascii ''data'' @ leBytes 4 n"

definition zeros :: "nat \<Rightarrow> buffer" where
  "zeros n = replicate n 0"

section \<open>Example data\<close>

definition sttEvent :: "bool \<Rightarrow> string \<Rightarrow> stt_response" where
  "sttEvent fin s =
     \<lparr>results = Some [\<lparr>alternatives = Some [\<lparr>transcript = Some (js s)\<rparr>], isFinal = fin\<rparr>]\<rparr>"

definition openSocket :: websocket where
  "openSocket = \<lparr>readyState = 1, sent = []\<rparr>"

definition pendingConn :: connection where
  "pendingConn = (newConnection openSocket)\<lparr>sentence := js ''I am'', sentenceTimer := True\<rparr>"

definition repeatedConn :: connection where
  "repeatedConn =
     (newConnection openSocket)\<lparr>sentence := js ''Hello'', lastSentence := js ''Hello'',
        sentenceTimer := True\<rparr>"

definition previewConn :: connection where
  "previewConn = handleSTTData (newConnection openSocket) (sttEvent False ''I am'')"

definition waitingRoom :: session where
  "waitingRoom =
     \<lparr>creatorLanguage = Some (js ''en''), creatorName = Some (js ''Ann''),
      participantLanguage = None, participantName = None,
      callerConnection = None, receiverConnection = None, createdAt = 0\<rparr>"

definition fullRoom :: session where
  "fullRoom = waitingRoom\<lparr>participantLanguage := Some (js ''es''), participantName := Some (js ''Bo'')\<rparr>"

definition joinRequest :: "string \<Rightarrow> joinBody" where
  "joinRequest r = \<lparr>reqRoomId = Some (js r), reqLanguage = Some (js ''es''), reqName = Some (js ''Bo'')\<rparr>"

definition joinAs :: "string \<Rightarrow> string \<Rightarrow> string \<Rightarrow> joinBody" where
  "joinAs r lang name =
     \<lparr>reqRoomId = Some (js r), reqLanguage = Some (js lang), reqName = Some (js name)\<rparr>"

definition exampleWav :: buffer where
  "exampleWav =
     ascii ''RIFF'' @ [38, 0, 0, 0] @ ascii ''WAVE'' @ ascii ''fmt '' @ [16, 0, 0, 0] @
     [1, 0] @ [1, 0] @ [0x80, 0xBB, 0, 0] @ [0, 0x77, 1, 0] @ [2, 0] @ [16, 0] @
     ascii ''data'' @ [2, 0, 0, 0] @ [1, 2]"

text \<open>
  A room with a caller (connection 0, language \<open>en\<close>) and a receiver (connection 1).
\<close>

definition room1 :: jsstring where
  "room1 = js ''ab12cd34''"

definition closedSocket :: websocket where
  "closedSocket = \<lparr>readyState = 3, sent = []\<rparr>"

definition callerConn :: "string \<Rightarrow> connection" where
  "callerConn s =
     (newConnection openSocket)\<lparr>roomId := Some room1, userType := Some (js ''caller''),
        myLanguage := Some (js ''en''), myName := Some (js ''Ann''), sentence := js s\<rparr>"

definition receiverConn :: "string \<Rightarrow> connection" where
  "receiverConn lang =
     (newConnection openSocket)\<lparr>roomId := Some room1, userType := Some (js ''receiver''),
        myLanguage := Some (js lang), myName := Some (js ''Bo'')\<rparr>"

definition pairedRoom :: session where
  "pairedRoom = fullRoom\<lparr>callerConnection := Some 0, receiverConnection := Some 1\<rparr>"

definition callWorld :: "string \<Rightarrow> string \<Rightarrow> world" where
  "callWorld lang s =
     \<lparr>conns = (\<lambda>_. newConnection closedSocket)(0 := callerConn s, 1 := receiverConn lang),
      activeSessions = [room1 \<mapsto> pairedRoom], jobs = [], engine = []\<rparr>"

definition busyWorld :: world where
  "busyWorld = translateAndSpeak (callWorld ''es'' []) 0 (js ''Hello'')"

text \<open>
  The caller has said \<open>Hello\<close>, the timer has fired, and \<open>I am\<close> has arrived while the
  round for \<open>Hello\<close> is still in flight.
\<close>

definition talkingWorld :: "string \<Rightarrow> world" where
  "talkingWorld lang =
     turn (turn (turn (callWorld lang []) (SttData 0 (sttEvent True ''Hello''))) (TimerFired 0))
       (SttData 0 (sttEvent True ''I am''))"

definition translator :: "jsstring \<Rightarrow> jsstring \<Rightarrow> jsstring \<Rightarrow> jsstring option" where
  "translator t f l = (if t = js ''I am'' \<and> f = js ''en'' \<and> l = js ''es'' then Some (js ''Yo soy'') else None)"

definition synthesizer :: "buffer \<Rightarrow> jsstring \<Rightarrow> jsstring option \<Rightarrow> buffer option" where
  "synthesizer pcm t l = Some pcm"

section \<open>Trimming\<close>

lemma trim_id: "trimmed s \<Longrightarrow> trim s = s"
proof (cases "s = []")
  case True
  then show ?thesis by (simp add: trim_def)
next
  case False
  assume "trimmed s"
  with False have h: "\<not> isWhiteSpace (hd s)" and l: "\<not> isWhiteSpace (last s)"
    by (auto simp: trimmed_def)
  from False h have a: "dropWhile isWhiteSpace s = s"
    by (cases s) auto
  from False l have "dropWhile isWhiteSpace (rev s) = rev s"
    by (cases "rev s") (auto simp: last_rev hd_rev)
  with a show ?thesis by (simp add: trim_def)
qed

lemma trimmed_trim: "trimmed (trim s)"
proof -
  let ?d = "dropWhile isWhiteSpace s"
  let ?e = "dropWhile isWhiteSpace (rev ?d)"
  show ?thesis
  proof (cases "?e = []")
    case True
    then show ?thesis by (simp add: trim_def trimmed_def)
  next
    case False
    then have l: "\<not> isWhiteSpace (hd ?e)" by (metis hd_dropWhile)
    have dne: "?d \<noteq> []"
    proof
      assume "?d = []"
      then have "?e = []" by (simp only: rev.simps dropWhile.simps)
      with False show False by simp
    qed
    then have hd: "\<not> isWhiteSpace (hd ?d)" by (metis hd_dropWhile)
    have "rev ?d = takeWhile isWhiteSpace (rev ?d) @ ?e"
      by simp
    then have "?d = rev ?e @ rev (takeWhile isWhiteSpace (rev ?d))"
      by (metis rev_append rev_rev_ident)
    with False have "hd (rev ?e) = hd ?d"
      by (metis hd_append2 rev_is_Nil_conv)
    with hd l False show ?thesis
      by (simp add: trim_def trimmed_def last_rev)
  qed
qed

lemma trimmed_Nil: "trimmed []"
  by (simp add: trimmed_def)

lemma trimmed_join:
  "trimmed s \<Longrightarrow> trimmed t \<Longrightarrow> s \<noteq> [] \<Longrightarrow> t \<noteq> [] \<Longrightarrow> trimmed (s @ space @ t)"
  by (simp add: trimmed_def space_def)

lemma trimmed_append_fragment:
  "trimmed s \<Longrightarrow> trimmed t \<Longrightarrow> t \<noteq> [] \<Longrightarrow> trimmed (append_fragment s t)"
  by (simp add: append_fragment_def trimmed_join)

section \<open>The accumulator\<close>

lemma handleSTTData_fragment:
  "handleSTTData c r =
     (case fragment r of
        None \<Rightarrow> c
      | Some (fin, t) \<Rightarrow>
          if fin then
            resetSentenceTimer (c\<lparr>sentence := append_fragment (sentence c) t, lastInterim := []\<rparr>)
          else
            resetSentenceTimer
              (sendToUI (c\<lparr>lastInterim := append_fragment (sentence c) t\<rparr>)
                 (TranscriptInterim (append_fragment (sentence c) t))))"
  by (simp add: handleSTTData_def fragment_def append_fragment_def Let_def split: option.splits)

lemma fragment_props: "fragment r = Some (fin, t) \<Longrightarrow> t \<noteq> [] \<and> trimmed t"
  by (auto simp: fragment_def transcriptOf_def trimmed_trim
      split: option.splits list.splits if_splits)

lemma sentence_handleSTTData:
  "sentence (handleSTTData c r) =
     (case fragment r of Some (True, t) \<Rightarrow> append_fragment (sentence c) t | _ \<Rightarrow> sentence c)"
  by (simp add: handleSTTData_fragment resetSentenceTimer_def sendToUI_def
      split: option.splits bool.splits)

lemma lastSentence_handleSTTData: "lastSentence (handleSTTData c r) = lastSentence c"
  by (simp add: handleSTTData_fragment resetSentenceTimer_def sendToUI_def
      split: option.splits bool.splits)

lemma sentence_foldl:
  "sentence (foldl handleSTTData c evs) = foldl append_fragment (sentence c) (finalTexts evs)"
proof (induction evs arbitrary: c)
  case Nil
  show ?case by (simp add: finalTexts_def List.map_filter_simps)
next
  case (Cons r evs)
  show ?case
    using Cons.IH [of "handleSTTData c r"]
    by (simp add: sentence_handleSTTData finalTexts_def List.map_filter_simps
        split: option.splits bool.splits)
qed

lemma lastSentence_foldl: "lastSentence (foldl handleSTTData c evs) = lastSentence c"
  by (induction evs arbitrary: c) (simp_all add: lastSentence_handleSTTData)

lemma finalTexts_props: "t \<in> set (finalTexts evs) \<Longrightarrow> t \<noteq> [] \<and> trimmed t"
  by (auto simp: finalTexts_def List.map_filter_def split: option.splits bool.splits
      dest: fragment_props)

lemma foldl_append_fragment:
  "\<forall>t \<in> set ts. t \<noteq> [] \<Longrightarrow> s \<noteq> [] \<Longrightarrow> foldl append_fragment s ts = joinSpace (s # ts)"
proof (induction ts arbitrary: s)
  case Nil
  show ?case by simp
next
  case (Cons t ts)
  have "foldl append_fragment (s @ space @ t) ts = joinSpace ((s @ space @ t) # ts)"
    using Cons.prems by (intro Cons.IH) auto
  moreover have "joinSpace ((s @ space @ t) # ts) = s @ space @ joinSpace (t # ts)"
    by (cases ts) simp_all
  moreover have "append_fragment s t = s @ space @ t"
    using Cons.prems by (simp add: append_fragment_def)
  ultimately show ?case by simp
qed

lemma foldl_append_fragment_Nil:
  "\<forall>t \<in> set ts. t \<noteq> [] \<Longrightarrow> foldl append_fragment [] ts = joinSpace ts"
  by (cases ts) (simp_all add: append_fragment_def foldl_append_fragment)

lemma trimmed_joinSpace:
  "\<forall>t \<in> set ts. t \<noteq> [] \<and> trimmed t \<Longrightarrow> trimmed (joinSpace ts)"
proof (induction ts rule: joinSpace.induct)
  case 1
  show ?case by (simp add: trimmed_def)
next
  case (2 x)
  then show ?case by simp
next
  case (3 x y ys)
  then have a: "trimmed (joinSpace (y # ys))" by simp
  have b: "joinSpace (y # ys) \<noteq> []" using 3 by (cases ys) auto
  from 3 a b show ?case by (simp add: trimmed_join)
qed

lemma finalTexts_Cons:
  "finalTexts (r # evs) =
     (case fragment r of Some (True, t) \<Rightarrow> t # finalTexts evs | _ \<Rightarrow> finalTexts evs)"
  by (simp add: finalTexts_def List.map_filter_simps split: option.splits bool.splits)

lemma finalTexts_interim: "interimEvent r \<Longrightarrow> finalTexts (r # evs) = finalTexts evs"
  by (auto simp: finalTexts_Cons interimEvent_def fragment_def split: option.splits bool.splits)

lemma finalTexts_without_interims:
  "finalTexts (filter (\<lambda>r. \<not> interimEvent r) evs) = finalTexts evs"
proof (induction evs)
  case Nil
  show ?case by simp
next
  case (Cons r evs)
  show ?case
  proof (cases "interimEvent r")
    case True
    then show ?thesis using Cons.IH by (simp add: finalTexts_interim)
  next
    case False
    then show ?thesis using Cons.IH
      by (simp add: finalTexts_Cons split: option.splits bool.splits)
  qed
qed

lemma finalizeSentence_clears:
  "snd (finalizeSentence c) = Some t \<Longrightarrow> sentence (fst (finalizeSentence c)) = []"
  by (simp add: finalizeSentence_def Let_def split: if_splits)

lemma sentence_foldl_joined:
  "sentence (foldl handleSTTData c evs) = joinSpace (carried c @ finalTexts evs)"
proof -
  have ne: "\<forall>t \<in> set (finalTexts evs). t \<noteq> []"
    using finalTexts_props by blast
  show ?thesis
  proof (cases "sentence c = []")
    case True
    then show ?thesis using ne by (simp add: carried_def sentence_foldl foldl_append_fragment_Nil)
  next
    case False
    then show ?thesis using ne by (simp add: carried_def sentence_foldl foldl_append_fragment)
  qed
qed

lemma trimmed_carried_joined:
  assumes "trimmed (sentence c)"
  shows "trimmed (joinSpace (carried c @ finalTexts evs))"
proof (rule trimmed_joinSpace, rule ballI)
  fix t assume "t \<in> set (carried c @ finalTexts evs)"
  then consider "t = sentence c" "sentence c \<noteq> []" | "t \<in> set (finalTexts evs)"
    by (auto simp: carried_def split: if_splits)
  then show "t \<noteq> [] \<and> trimmed t"
    using assms finalTexts_props by cases auto
qed

lemma carried_finalizeSentence:
  "carried (fst (finalizeSentence c0)) =
     (if sentence c0 \<noteq> [] \<and> sentence c0 = lastSentence c0 then [sentence c0] else [])"
  by (simp add: carried_def finalizeSentence_def Let_def)

text \<open>
  C1 (as amended).  After any sequence of recognition events the next finalize hands
  over the space-joined concatenation, in arrival order, of the text the connection
  still held in \<open>sentence\<close> when the sequence began (\<open>carried\<close>) and the texts of the
  final events of the sequence, trimmed; it hands over nothing when that text is empty
  or equals the last emitted sentence.  The joined text is already trimmed when the
  text held was.  Interim events do not count: the sequence without them gives the
  same sentence.  Nothing is held on a new connection and after a finalize that
  dispatched; a finalize that returned at its guard because the text equalled the last
  emitted sentence leaves that text in \<open>sentence\<close>, and it is the head of the next
  sentence.
\<close>

theorem finalize_dispatches_joined_finals:
  "snd (finalizeSentence (foldl handleSTTData c evs)) =
     (if joinSpace (carried c @ finalTexts evs) = [] \<or>
         joinSpace (carried c @ finalTexts evs) = lastSentence c
      then None else Some (trim (joinSpace (carried c @ finalTexts evs)))) \<and>
   (trimmed (sentence c) \<longrightarrow>
      trim (joinSpace (carried c @ finalTexts evs)) = joinSpace (carried c @ finalTexts evs)) \<and>
   snd (finalizeSentence (foldl handleSTTData c (filter (\<lambda>r. \<not> interimEvent r) evs))) =
     snd (finalizeSentence (foldl handleSTTData c evs)) \<and>
   carried (newConnection sock) = [] \<and>
   carried (fst (finalizeSentence c0)) =
     (if sentence c0 \<noteq> [] \<and> sentence c0 = lastSentence c0 then [sentence c0] else [])"
proof -
  have d: "snd (finalizeSentence (foldl handleSTTData c es)) =
     (if joinSpace (carried c @ finalTexts es) = [] \<or>
         joinSpace (carried c @ finalTexts es) = lastSentence c
      then None else Some (trim (joinSpace (carried c @ finalTexts es))))" for es
    by (simp add: finalizeSentence_def Let_def sentence_foldl_joined lastSentence_foldl)
  have t: "trimmed (sentence c) \<longrightarrow>
      trim (joinSpace (carried c @ finalTexts evs)) = joinSpace (carried c @ finalTexts evs)"
    by (simp add: trim_id trimmed_carried_joined)
  have i: "snd (finalizeSentence (foldl handleSTTData c (filter (\<lambda>r. \<not> interimEvent r) evs))) =
     snd (finalizeSentence (foldl handleSTTData c evs))"
    by (simp only: d finalTexts_without_interims)
  have n: "carried (newConnection sock) = []"
    by (simp add: carried_def newConnection_def)
  from d [of evs] t i n carried_finalizeSentence [of c0] show ?thesis by blast
qed

lemmas acc_defs =
  handleSTTData_def finalizeSentence_def resetSentenceTimer_def sendToUI_def firstResult_def
  transcriptOf_def fragment_def finalTexts_def List.map_filter_simps interimEvent_def
  sttEvent_def newConnection_def openSocket_def trim_def isWhiteSpace_def js_def space_def
  carried_def Let_def

theorem finalize_dispatches_joined_finals_witness:
  "snd (finalizeSentence (foldl handleSTTData (newConnection openSocket)
          [sttEvent True ''Hello'', sttEvent False ''Hello there'', sttEvent True ''there'']))
     = Some (js ''Hello there'') \<and>
   filter (\<lambda>r. \<not> interimEvent r)
     [sttEvent True ''Hello'', sttEvent False ''Hello there'', sttEvent True ''there''] =
     [sttEvent True ''Hello'', sttEvent True ''there''] \<and>
   trimmed (sentence repeatedConn) \<and> carried repeatedConn = [js ''Hello''] \<and>
   snd (finalizeSentence (foldl handleSTTData repeatedConn
          [sttEvent False ''Hello there'', sttEvent True ''there''])) = Some (js ''Hello there'') \<and>
   trim (joinSpace (carried repeatedConn @
          finalTexts [sttEvent False ''Hello there'', sttEvent True ''there''])) =
     js ''Hello there'' \<and>
   snd (finalizeSentence (foldl handleSTTData repeatedConn [sttEvent False ''Hello there''])) = None"
  using finalize_dispatches_joined_finals [of "newConnection openSocket"
      "[sttEvent True ''Hello'', sttEvent False ''Hello there'', sttEvent True ''there'']"]
    finalize_dispatches_joined_finals [of repeatedConn
      "[sttEvent False ''Hello there'', sttEvent True ''there'']"]
    finalize_dispatches_joined_finals [of repeatedConn "[sttEvent False ''Hello there'']"]
  by (simp add: repeatedConn_def trimmed_def acc_defs)

text \<open>
  C1 as stated fails: \<open>Hello\<close> is dispatched, the speaker repeats \<open>Hello\<close>, the next
  finalize returns at its guard and leaves the text in \<open>sentence\<close>; after the final
  event \<open>there\<close> the finalize dispatches \<open>Hello there\<close>, while the final events since
  the last finalize give \<open>there\<close>.
\<close>

theorem finals_since_finalize_counterexample:
  "finalizeSentence (handleSTTData (newConnection openSocket) (sttEvent True ''Hello'')) =
     ((newConnection openSocket)\<lparr>lastSentence := js ''Hello''\<rparr>, Some (js ''Hello'')) \<and>
   finalizeSentence
       (handleSTTData ((newConnection openSocket)\<lparr>lastSentence := js ''Hello''\<rparr>)
          (sttEvent True ''Hello'')) =
     ((newConnection openSocket)\<lparr>lastSentence := js ''Hello'', sentence := js ''Hello''\<rparr>, None) \<and>
   snd (finalizeSentence
          (foldl handleSTTData
             ((newConnection openSocket)\<lparr>lastSentence := js ''Hello'', sentence := js ''Hello''\<rparr>)
             [sttEvent True ''there''])) = Some (js ''Hello there'') \<and>
   trim (joinSpace (finalTexts [sttEvent True ''there''])) = js ''there'' \<and>
   js ''Hello there'' \<noteq> js ''there''"
  by (simp add: acc_defs)

section \<open>The accumulator invariant\<close>

lemma accInv_newConnection: "accInv (newConnection sock)"
  by (simp add: accInv_def newConnection_def trimmed_def)

lemma accInv_handleSTTData: "accInv c \<Longrightarrow> accInv (handleSTTData c r)"
  by (auto simp: accInv_def handleSTTData_fragment resetSentenceTimer_def sendToUI_def
      trimmed_Nil trimmed_append_fragment split: option.splits dest: fragment_props)

lemma accInv_finalizeSentence: "accInv c \<Longrightarrow> accInv (fst (finalizeSentence c))"
  by (simp add: accInv_def finalizeSentence_def Let_def trimmed_Nil)

lemma accInv_handleSTTError: "accInv c \<Longrightarrow> accInv (fst (handleSTTError c))"
  by (auto simp: accInv_def handleSTTError_def finalizeSentence_def Let_def trimmed_Nil
      split: prod.splits)

lemma accInv_flushPending: "accInv c \<Longrightarrow> accInv (fst (flushPending c))"
  by (simp add: accInv_def flushPending_def finalizeSentence_def Let_def trimmed_Nil)

section \<open>Finalization\<close>

text \<open>
  C2.  Two calls of \<^verbatim>\<open>_finalizeSentence\<close> in succession: whatever the first call
  returned, the second one makes no call of the relay and changes nothing, also when
  the relay has set or cleared the processing flag in between (the only field of the
  connection it writes).  Together the two calls hand the accumulated sentence to the
  relay exactly once when there is a sentence to emit, and never otherwise.
\<close>

theorem finalize_twice_dispatches_once:
  assumes "finalizeSentence c = (c1, d1)"
  shows "finalizeSentence (c1\<lparr>isProcessing := b\<rparr>) = (c1\<lparr>isProcessing := b\<rparr>, None) \<and>
         dispatched [d1, snd (finalizeSentence (c1\<lparr>isProcessing := b\<rparr>))] =
           (if sentence c = [] \<or> sentence c = lastSentence c then [] else [trim (sentence c)])"
proof (cases "sentence c = [] \<or> sentence c = lastSentence c")
  case True
  with assms have "c1 = c\<lparr>sentenceTimer := False\<rparr>" and "d1 = None"
    by (auto simp: finalizeSentence_def Let_def)
  with True show ?thesis
    by (auto simp: finalizeSentence_def Let_def dispatched_def List.map_filter_simps)
next
  case False
  with assms
  have "c1 = c\<lparr>sentenceTimer := False, lastSentence := trim (sentence c), sentence := []\<rparr>"
    and "d1 = Some (trim (sentence c))"
    by (auto simp: finalizeSentence_def Let_def)
  with False show ?thesis
    by (simp add: finalizeSentence_def Let_def dispatched_def List.map_filter_simps)
qed

theorem finalize_twice_dispatches_once_witness:
  "finalizeSentence pendingConn =
     (pendingConn\<lparr>sentenceTimer := False, lastSentence := js ''I am'', sentence := []\<rparr>,
      Some (js ''I am'')) \<and>
   finalizeSentence
     (pendingConn\<lparr>sentenceTimer := False, lastSentence := js ''I am'', sentence := [],
        isProcessing := True\<rparr>) =
     (pendingConn\<lparr>sentenceTimer := False, lastSentence := js ''I am'', sentence := [],
        isProcessing := True\<rparr>, None) \<and>
   dispatched [Some (js ''I am''),
      snd (finalizeSentence
        (pendingConn\<lparr>sentenceTimer := False, lastSentence := js ''I am'', sentence := [],
           isProcessing := True\<rparr>))] = [js ''I am'']"
proof -
  have f: "finalizeSentence pendingConn =
     (pendingConn\<lparr>sentenceTimer := False, lastSentence := js ''I am'', sentence := []\<rparr>,
      Some (js ''I am''))"
    by (simp add: finalizeSentence_def pendingConn_def newConnection_def Let_def trim_def
        isWhiteSpace_def js_def)
  have t: "trim (sentence pendingConn) = js ''I am''"
    by (simp add: pendingConn_def trim_def isWhiteSpace_def js_def)
  have n: "sentence pendingConn \<noteq> [] \<and> sentence pendingConn \<noteq> lastSentence pendingConn"
    by (simp add: pendingConn_def newConnection_def js_def)
  show ?thesis
    using finalize_twice_dispatches_once [OF f, of True] f t n
    by (simp add: dispatched_def List.map_filter_simps)
qed

text \<open>
  C10.  In a state whose accumulated sentence equals the last emitted sentence,
  \<^verbatim>\<open>_finalizeSentence\<close> hands nothing to the relay and only clears the timer, and so do
  its callers: the timer callback, the flush of \<^verbatim>\<open>cleanup\<close>, and the error handler when
  a sentence is accumulated.  The repeated sentence stays in \<open>sentence\<close>.
\<close>

theorem repeated_sentence_not_dispatched:
  assumes "sentence c = lastSentence c"
  shows "finalizeSentence c = (c\<lparr>sentenceTimer := False\<rparr>, None) \<and>
         timerFired c = (c\<lparr>sentenceTimer := False\<rparr>, None) \<and>
         flushPending c = (c\<lparr>sentenceTimer := False\<rparr>, None) \<and>
         (sentence c \<noteq> [] \<longrightarrow>
            handleSTTError c =
              (c\<lparr>isStreaming := False, recognizeStream := False, lastInterim := []\<rparr>, None))"
  using assms
  by (simp add: finalizeSentence_def timerFired_def flushPending_def handleSTTError_def Let_def)

theorem repeated_sentence_not_dispatched_witness:
  "sentence repeatedConn = lastSentence repeatedConn \<and> sentence repeatedConn \<noteq> [] \<and>
   finalizeSentence repeatedConn = (repeatedConn\<lparr>sentenceTimer := False\<rparr>, None) \<and>
   timerFired repeatedConn = (repeatedConn\<lparr>sentenceTimer := False\<rparr>, None) \<and>
   flushPending repeatedConn = (repeatedConn\<lparr>sentenceTimer := False\<rparr>, None) \<and>
   handleSTTError repeatedConn =
     (repeatedConn\<lparr>isStreaming := False, recognizeStream := False, lastInterim := []\<rparr>, None)"
proof -
  have a: "sentence repeatedConn = lastSentence repeatedConn"
    by (simp add: repeatedConn_def)
  have b: "sentence repeatedConn \<noteq> []"
    by (simp add: repeatedConn_def js_def)
  show ?thesis
    using repeated_sentence_not_dispatched [OF a] a b by simp
qed

text \<open>
  C4.  A stream error with no committed text and a preview that is non-empty and
  differs from the last emitted sentence: the handler hands exactly the preview to the
  relay, records it as the last emitted sentence and leaves both the committed text and
  the preview empty.  The preview is trimmed in every state the handlers produce
  (\<open>accInv\<close>), so trimming does not change it.
\<close>

theorem error_fallback_promotes_preview:
  assumes "sentence c = []" and "lastInterim c \<noteq> []" and "lastInterim c \<noteq> lastSentence c"
    and "accInv c"
  shows "handleSTTError c =
           (c\<lparr>isStreaming := False, recognizeStream := False, sentenceTimer := False,
              lastSentence := lastInterim c, sentence := [], lastInterim := []\<rparr>,
            Some (lastInterim c))"
proof -
  have "trim (lastInterim c) = lastInterim c"
    using assms(4) by (simp add: accInv_def trim_id)
  then show ?thesis
    using assms(1-3) by (simp add: handleSTTError_def finalizeSentence_def Let_def)
qed

theorem error_fallback_promotes_preview_witness:
  "sentence previewConn = [] \<and> lastInterim previewConn = js ''I am'' \<and>
   lastSentence previewConn = [] \<and> accInv previewConn \<and>
   snd (handleSTTError previewConn) = Some (js ''I am'') \<and>
   lastSentence (fst (handleSTTError previewConn)) = js ''I am'' \<and>
   sentence (fst (handleSTTError previewConn)) = [] \<and>
   lastInterim (fst (handleSTTError previewConn)) = []"
proof -
  have eq: "previewConn =
      (newConnection openSocket)\<lparr>ws := \<lparr>readyState = 1, sent = [TranscriptInterim (js ''I am'')]\<rparr>,
         lastInterim := js ''I am'', sentenceTimer := True\<rparr>"
    by (simp add: previewConn_def handleSTTData_def sttEvent_def newConnection_def openSocket_def
        firstResult_def transcriptOf_def resetSentenceTimer_def sendToUI_def Let_def trim_def
        isWhiteSpace_def js_def)
  have a: "sentence previewConn = []" by (simp add: eq newConnection_def)
  have b: "lastInterim previewConn = js ''I am''" by (simp add: eq)
  have b': "lastInterim previewConn \<noteq> []" by (simp add: b js_def)
  have c: "lastSentence previewConn = []" by (simp add: eq newConnection_def)
  have c': "lastInterim previewConn \<noteq> lastSentence previewConn" using b' c by simp
  have d: "accInv previewConn"
    unfolding previewConn_def by (intro accInv_handleSTTData accInv_newConnection)
  show ?thesis
    using error_fallback_promotes_preview [OF a b' c' d] a b c d by simp
qed

section \<open>Translation\<close>

lemma splitOn_not_Nil: "splitOn sep s \<noteq> []"
  by (induction s) auto

lemma hd_splitOn: "hd (splitOn sep s) = takeWhile (\<lambda>u. u \<noteq> sep) s"
  by (induction s) auto

lemma langBase_baseSubtag: "langBase lang = baseSubtag (orElse lang (js ''en''))"
  by (simp add: langBase_def baseSubtag_def hd_splitOn)

text \<open>
  C8.  When the tags the function works with (the given tag, or \<open>en\<close> when none is
  given) have the same base subtag, \<^verbatim>\<open>_translate\<close> returns the text as it is, for
  every text, and does so before any call of the translation engine.
\<close>

theorem translate_same_base:
  assumes "baseSubtag (orElse from (js ''en'')) = baseSubtag (orElse to (js ''en''))"
  shows "translate text from to = Resolved text"
  using assms by (simp add: translate_def langBase_baseSubtag)

theorem translate_same_base_witness:
  "baseSubtag (orElse (Some (js ''en-US'')) (js ''en'')) =
     baseSubtag (orElse (Some (js ''en-GB'')) (js ''en'')) \<and>
   translate (js ''Hello'') (Some (js ''en-US'')) (Some (js ''en-GB'')) = Resolved (js ''Hello'')"
proof -
  have h: "baseSubtag (orElse (Some (js ''en-US'')) (js ''en'')) =
     baseSubtag (orElse (Some (js ''en-GB'')) (js ''en''))"
    by (simp add: baseSubtag_def orElse_def js_def hyphen_def)
  show ?thesis
    using translate_same_base [OF h] h by simp
qed

section \<open>Joining a room\<close>

lemma joinRoom_found:
  assumes "reqRoomId b = Some r" and "sessions r = Some s"
  shows "joinRoom sessions (Some b) =
           (if truthy (participantLanguage s)
            then ((400, ErrorBody (js ''Room is full'')), sessions)
            else ((200, JoinedBody (creatorLanguage s) (creatorName s)),
                  sessions(r \<mapsto> s\<lparr>participantLanguage := reqLanguage b,
                                   participantName := reqName b\<rparr>)))"
  using assms by (simp add: joinRoom_def Let_def)

lemma joinRoom_unknown:
  assumes "reqRoomId b = None \<or> (\<exists>r. reqRoomId b = Some r \<and> sessions r = None)"
  shows "joinRoom sessions (Some b) = ((404, ErrorBody (js ''Room not found'')), sessions)"
  using assms by (auto simp: joinRoom_def)

text \<open>
  C6 (as amended).  \<^verbatim>\<open>POST /join-room\<close>: an identifier that is missing or not in the
  registry is answered with status 404 and \<open>Room not found\<close>; a room whose
  \<open>participantLanguage\<close> is a non-empty string with status 400 and \<open>Room is full\<close>,
  the registry unchanged in both cases; every other request for a registered room is
  answered with status 200 and the creator's language and name, and the request's
  language and name are recorded as the participant.  A further join of the same room
  is therefore answered with \<open>Room is full\<close> exactly when the peer that joined gave a
  non-empty language; otherwise it succeeds and replaces that peer.
\<close>

theorem join_room_responses:
  "(reqRoomId b = None \<or> (\<exists>r. reqRoomId b = Some r \<and> sessions r = None) \<longrightarrow>
      joinRoom sessions (Some b) = ((404, ErrorBody (js ''Room not found'')), sessions)) \<and>
   (reqRoomId b = Some r \<and> sessions r = Some s \<and> truthy (participantLanguage s) \<longrightarrow>
      joinRoom sessions (Some b) = ((400, ErrorBody (js ''Room is full'')), sessions)) \<and>
   (reqRoomId b = Some r \<and> sessions r = Some s \<and> \<not> truthy (participantLanguage s) \<longrightarrow>
      joinRoom sessions (Some b) =
        ((200, JoinedBody (creatorLanguage s) (creatorName s)),
         sessions(r \<mapsto> s\<lparr>participantLanguage := reqLanguage b, participantName := reqName b\<rparr>)) \<and>
      (reqRoomId b' = Some r \<longrightarrow>
         joinRoom (sessions(r \<mapsto> s\<lparr>participantLanguage := reqLanguage b,
                                        participantName := reqName b\<rparr>)) (Some b') =
           (if truthy (reqLanguage b)
            then ((400, ErrorBody (js ''Room is full'')),
                  sessions(r \<mapsto> s\<lparr>participantLanguage := reqLanguage b,
                                   participantName := reqName b\<rparr>))
            else ((200, JoinedBody (creatorLanguage s) (creatorName s)),
                  sessions(r \<mapsto> s\<lparr>participantLanguage := reqLanguage b',
                                   participantName := reqName b'\<rparr>)))))"
proof (intro conjI impI)
  assume "reqRoomId b = None \<or> (\<exists>r. reqRoomId b = Some r \<and> sessions r = None)"
  then show "joinRoom sessions (Some b) = ((404, ErrorBody (js ''Room not found'')), sessions)"
    by (rule joinRoom_unknown)
next
  assume "reqRoomId b = Some r \<and> sessions r = Some s \<and> truthy (participantLanguage s)"
  then show "joinRoom sessions (Some b) = ((400, ErrorBody (js ''Room is full'')), sessions)"
    by (simp add: joinRoom_found)
next
  assume a: "reqRoomId b = Some r \<and> sessions r = Some s \<and> \<not> truthy (participantLanguage s)"
  then show first: "joinRoom sessions (Some b) =
        ((200, JoinedBody (creatorLanguage s) (creatorName s)),
         sessions(r \<mapsto> s\<lparr>participantLanguage := reqLanguage b, participantName := reqName b\<rparr>))"
    by (simp add: joinRoom_found)
  assume b: "reqRoomId b' = Some r"
  let ?s1 = "s\<lparr>participantLanguage := reqLanguage b, participantName := reqName b\<rparr>"
  let ?after = "sessions(r \<mapsto> ?s1)"
  have "joinRoom ?after (Some b') =
      (if truthy (reqLanguage b) then ((400, ErrorBody (js ''Room is full'')), ?after)
       else ((200, JoinedBody (creatorLanguage s) (creatorName s)),
             sessions(r \<mapsto> s\<lparr>participantLanguage := reqLanguage b',
                              participantName := reqName b'\<rparr>)))"
    using b joinRoom_found [of b' r ?after ?s1] by simp
  then show "joinRoom ?after (Some b') =
           (if truthy (reqLanguage b)
            then ((400, ErrorBody (js ''Room is full'')), ?after)
            else ((200, JoinedBody (creatorLanguage s) (creatorName s)),
                  sessions(r \<mapsto> s\<lparr>participantLanguage := reqLanguage b',
                                   participantName := reqName b'\<rparr>)))" .
qed

theorem join_room_responses_witness:
  "joinRoom [js ''room1'' \<mapsto> waitingRoom] (Some (joinRequest ''room2'')) =
     ((404, ErrorBody (js ''Room not found'')), [js ''room1'' \<mapsto> waitingRoom]) \<and>
   joinRoom [js ''room1'' \<mapsto> fullRoom] (Some (joinRequest ''room1'')) =
     ((400, ErrorBody (js ''Room is full'')), [js ''room1'' \<mapsto> fullRoom]) \<and>
   joinRoom [js ''room1'' \<mapsto> waitingRoom] (Some (joinRequest ''room1'')) =
     ((200, JoinedBody (Some (js ''en'')) (Some (js ''Ann''))), [js ''room1'' \<mapsto> fullRoom]) \<and>
   joinRoom (snd (joinRoom [js ''room1'' \<mapsto> waitingRoom] (Some (joinRequest ''room1''))))
       (Some (joinAs ''room1'' ''fr'' ''Cy'')) =
     ((400, ErrorBody (js ''Room is full'')), [js ''room1'' \<mapsto> fullRoom]) \<and>
   joinRoom (snd (joinRoom [js ''room1'' \<mapsto> waitingRoom] (Some (joinAs ''room1'' [] ''Bo''))))
       (Some (joinAs ''room1'' ''fr'' ''Cy'')) =
     ((200, JoinedBody (Some (js ''en'')) (Some (js ''Ann''))),
      [js ''room1'' \<mapsto> waitingRoom\<lparr>participantLanguage := Some (js ''fr''),
                                       participantName := Some (js ''Cy'')\<rparr>])"
proof -
  have a: "reqRoomId (joinRequest ''room2'') = Some (js ''room2'')"
    and a': "reqRoomId (joinRequest ''room1'') = Some (js ''room1'')"
    and a'': "truthy (reqLanguage (joinRequest ''room1''))"
    and a3: "reqRoomId (joinAs ''room1'' ''fr'' ''Cy'') = Some (js ''room1'')"
      "reqRoomId (joinAs ''room1'' [] ''Bo'') = Some (js ''room1'')"
      "\<not> truthy (reqLanguage (joinAs ''room1'' [] ''Bo''))"
      "reqLanguage (joinAs ''room1'' ''fr'' ''Cy'') = Some (js ''fr'')"
      "reqName (joinAs ''room1'' ''fr'' ''Cy'') = Some (js ''Cy'')"
      "reqLanguage (joinAs ''room1'' [] ''Bo'') = Some []"
      "reqName (joinAs ''room1'' [] ''Bo'') = Some (js ''Bo'')"
    by (simp_all add: joinRequest_def joinAs_def truthy_def js_def)
  have b: "[js ''room1'' \<mapsto> waitingRoom] (js ''room2'') = None"
    by (simp add: js_def)
  have c: "truthy (participantLanguage fullRoom)" "\<not> truthy (participantLanguage waitingRoom)"
    by (simp_all add: fullRoom_def waitingRoom_def truthy_def js_def)
  have d: "waitingRoom\<lparr>participantLanguage := reqLanguage (joinRequest ''room1''),
      participantName := reqName (joinRequest ''room1'')\<rparr> = fullRoom"
    by (simp add: fullRoom_def joinRequest_def)
  have e: "creatorLanguage waitingRoom = Some (js ''en'')" "creatorName waitingRoom = Some (js ''Ann'')"
    by (simp_all add: waitingRoom_def)
  show ?thesis
    using join_room_responses [of "joinRequest ''room2''" "[js ''room1'' \<mapsto> waitingRoom]"]
      join_room_responses [of "joinRequest ''room1''" "[js ''room1'' \<mapsto> fullRoom]" "js ''room1''" fullRoom]
      join_room_responses [of "joinRequest ''room1''" "[js ''room1'' \<mapsto> waitingRoom]" "js ''room1''"
        waitingRoom "joinAs ''room1'' ''fr'' ''Cy''"]
      join_room_responses [of "joinAs ''room1'' [] ''Bo''" "[js ''room1'' \<mapsto> waitingRoom]" "js ''room1''"
        waitingRoom "joinAs ''room1'' ''fr'' ''Cy''"]
      a a' a'' a3 b c d e
    by simp
qed

text \<open>
  C6 as stated fails: a peer that joins with an empty or a missing language fills the
  slot (its name is stored) but the room stays open, and the next join is answered with
  status 200 and overwrites it.  A full room is answered with status 400.
\<close>

theorem join_room_refill_counterexample:
  "joinRoom [js ''room1'' \<mapsto> waitingRoom] (Some (joinAs ''room1'' [] ''Bo'')) =
     ((200, JoinedBody (Some (js ''en'')) (Some (js ''Ann''))),
      [js ''room1'' \<mapsto> waitingRoom\<lparr>participantLanguage := Some [],
                                       participantName := Some (js ''Bo'')\<rparr>]) \<and>
   joinRoom [js ''room1'' \<mapsto> waitingRoom\<lparr>participantLanguage := Some [],
                                            participantName := Some (js ''Bo'')\<rparr>]
       (Some (joinAs ''room1'' ''fr'' ''Cy'')) =
     ((200, JoinedBody (Some (js ''en'')) (Some (js ''Ann''))),
      [js ''room1'' \<mapsto> waitingRoom\<lparr>participantLanguage := Some (js ''fr''),
                                       participantName := Some (js ''Cy'')\<rparr>]) \<and>
   joinRoom [js ''room1'' \<mapsto> waitingRoom]
       (Some \<lparr>reqRoomId = Some (js ''room1''), reqLanguage = None, reqName = Some (js ''Bo'')\<rparr>) =
     ((200, JoinedBody (Some (js ''en'')) (Some (js ''Ann''))),
      [js ''room1'' \<mapsto> waitingRoom\<lparr>participantName := Some (js ''Bo'')\<rparr>]) \<and>
   fst (joinRoom [js ''room1'' \<mapsto> fullRoom] (Some (joinAs ''room1'' ''fr'' ''Cy''))) =
     (400, ErrorBody (js ''Room is full''))"
  by (simp add: joinRoom_def joinAs_def waitingRoom_def fullRoom_def truthy_def js_def Let_def)

section \<open>The audio container\<close>

lemma length_writeBytes: "length (writeBytes h bs off) = length h"
  by (induction bs arbitrary: h off) simp_all

lemma length_leBytes: "length (leBytes n v) = n"
  by (induction n arbitrary: v) simp_all

lemma readLE_leBytes: "0 \<le> v \<Longrightarrow> v < 256 ^ n \<Longrightarrow> readLE (leBytes n v) = v"
proof (induction n arbitrary: v)
  case 0
  then show ?case by simp
next
  case (Suc n)
  have "0 \<le> v div 256" using Suc.prems by simp
  moreover have "v div 256 < 256 ^ n" using Suc.prems by (simp add: div_less_iff_less_mult mult.commute) 
  ultimately have "readLE (leBytes n (v div 256)) = v div 256" by (rule Suc.IH)
  moreover have "uint (word_of_int v :: byte) = v mod 256"
    by (simp add: uint_word_of_int)
  ultimately show ?case by simp
qed

lemma writeBytes_skip:
  "length s \<le> off \<Longrightarrow> writeBytes (s @ rest) bs off = s @ writeBytes rest bs (off - length s)"
proof (induction bs arbitrary: rest off)
  case Nil
  show ?case by simp
next
  case (Cons b bs)
  have "writeBytes ((s @ rest)[off := b]) bs (Suc off) =
        writeBytes (s @ rest[off - length s := b]) bs (Suc off)"
    using Cons.prems by (simp add: list_update_append)
  also have "\<dots> = s @ writeBytes (rest[off - length s := b]) bs (Suc off - length s)"
    using Cons.prems by (intro Cons.IH) simp
  finally show ?case using Cons.prems by (simp add: Suc_diff_le)
qed

lemma writeBytes_here:
  "length old = length bs \<Longrightarrow> writeBytes (old @ rest) bs 0 = bs @ rest"
proof -
  have "length old = length bs \<Longrightarrow> writeBytes (pre @ old @ rest) bs (length pre) = pre @ bs @ rest"
    for pre
  proof (induction bs arbitrary: old pre)
    case Nil
    then show ?case by simp
  next
    case (Cons b bs)
    then obtain o1 old' where old: "old = o1 # old'" and len: "length old' = length bs"
      by (cases old) auto
    have "writeBytes ((pre @ [b]) @ old' @ rest) bs (length (pre @ [b])) = (pre @ [b]) @ bs @ rest"
      using len by (rule Cons.IH)
    then show ?case by (simp add: old)
  qed
  from this [of "[]"] show "length old = length bs \<Longrightarrow> writeBytes (old @ rest) bs 0 = bs @ rest"
    by simp
qed

lemma writeBytes_whole: "length old = length bs \<Longrightarrow> writeBytes old bs 0 = bs"
  using writeBytes_here [of old bs "[]"] by simp

lemma length_zeros: "length (zeros n) = n"
  by (simp add: zeros_def)

lemma length_ascii: "length (ascii s) = length s"
  by (simp add: ascii_def)

lemma alloc44:
  "replicate 44 (0::byte) =
     zeros 4 @ zeros 4 @ zeros 4 @ zeros 4 @ zeros 4 @ zeros 2 @ zeros 2 @ zeros 4 @ zeros 4 @
     zeros 2 @ zeros 2 @ zeros 4 @ zeros 4 @ []"
  by (simp add: zeros_def replicate_add [symmetric])

lemma toWav_ok:
  assumes "0 \<le> rate" and "rate \<le> 2147483647" and "length pcm \<le> 4294967259"
  shows "toWav pcm rate = Inr (wavHeader (int (length pcm)) rate @ pcm)"
  using assms
  by (simp add: toWav_def andThen_def writeUInt32LE_def writeUInt16LE_def length_writeBytes
      wavHeader_def alloc44 writeBytes_skip writeBytes_here writeBytes_whole length_zeros
      length_ascii length_leBytes)

lemma length_wavHeader: "length (wavHeader n rate) = 44"
  by (simp add: wavHeader_def length_ascii length_leBytes)

text \<open>Within the range of the 32-bit fields the header reads back field by field.\<close>

lemma toWav_header:
  assumes "0 \<le> rate" and "rate \<le> 2147483647" and "length pcm \<le> 4294967259"
  shows "\<exists>wav. toWav pcm rate = Inr wav \<and> length wav = 44 + length pcm \<and>
           field wav 0 4 = ascii ''RIFF'' \<and>
           readUInt32LE wav 4 = 36 + int (length pcm) \<and>
           field wav 8 4 = ascii ''WAVE'' \<and>
           field wav 12 4 = ascii ''fmt '' \<and>
           readUInt32LE wav 16 = 16 \<and>
           readUInt16LE wav 20 = 1 \<and>
           readUInt16LE wav 22 = 1 \<and>
           readUInt32LE wav 24 = rate \<and>
           readUInt32LE wav 28 = rate * 2 \<and>
           readUInt16LE wav 32 = 2 \<and>
           readUInt16LE wav 34 = 16 \<and>
           field wav 36 4 = ascii ''data'' \<and>
           readUInt32LE wav 40 = int (length pcm) \<and>
           drop 44 wav = pcm"
proof -
  let ?n = "int (length pcm)"
  let ?wav = "wavHeader ?n rate @ pcm"
  have r32: "readLE (leBytes 4 v) = v" if "0 \<le> v" and "v \<le> 4294967295" for v
    using that by (intro readLE_leBytes) simp_all
  have r16: "readLE (leBytes 2 v) = v" if "0 \<le> v" and "v \<le> 65535" for v
    using that by (intro readLE_leBytes) simp_all
  have ok: "toWav pcm rate = Inr ?wav"
    using assms by (rule toWav_ok)
  have len: "length ?wav = 44 + length pcm"
    by (simp add: length_wavHeader)
  have f0: "field ?wav 0 4 = ascii ''RIFF''"
    by (simp add: field_def wavHeader_def length_ascii)
  have f4: "readUInt32LE ?wav 4 = 36 + ?n"
    using assms by (simp add: readUInt32LE_def wavHeader_def length_ascii length_leBytes r32)
  have f8: "field ?wav 8 4 = ascii ''WAVE''"
    by (simp add: field_def wavHeader_def length_ascii length_leBytes)
  have f12: "field ?wav 12 4 = ascii ''fmt ''"
    by (simp add: field_def wavHeader_def length_ascii length_leBytes)
  have f16: "readUInt32LE ?wav 16 = 16"
    by (simp add: readUInt32LE_def wavHeader_def length_ascii length_leBytes r32)
  have f20: "readUInt16LE ?wav 20 = 1"
    by (simp add: readUInt16LE_def wavHeader_def length_ascii length_leBytes r16)
  have f22: "readUInt16LE ?wav 22 = 1"
    by (simp add: readUInt16LE_def wavHeader_def length_ascii length_leBytes r16)
  have f24: "readUInt32LE ?wav 24 = rate"
    using assms by (simp add: readUInt32LE_def wavHeader_def length_ascii length_leBytes r32)
  have f28: "readUInt32LE ?wav 28 = rate * 2"
    using assms by (simp add: readUInt32LE_def wavHeader_def length_ascii length_leBytes r32)
  have f32: "readUInt16LE ?wav 32 = 2"
    by (simp add: readUInt16LE_def wavHeader_def length_ascii length_leBytes r16)
  have f34: "readUInt16LE ?wav 34 = 16"
    by (simp add: readUInt16LE_def wavHeader_def length_ascii length_leBytes r16)
  have f36: "field ?wav 36 4 = ascii ''data''"
    by (simp add: field_def wavHeader_def length_ascii length_leBytes)
  have f40: "readUInt32LE ?wav 40 = ?n"
    using assms by (simp add: readUInt32LE_def wavHeader_def length_ascii length_leBytes r32)
  have pay: "drop 44 ?wav = pcm"
    by (simp add: length_wavHeader)
  from ok len f0 f4 f8 f12 f16 f20 f22 f24 f28 f32 f34 f36 f40 pay show ?thesis
    by blast
qed

lemma toWav_out_of_range:
  "rate < 0 \<or> 2147483647 < rate \<or> 4294967259 < length pcm \<Longrightarrow> toWav pcm rate = Inl RangeError"
  by (auto simp: toWav_def andThen_def writeUInt32LE_def writeUInt16LE_def length_writeBytes)

text \<open>
  C9 (as amended).  For an integer sample rate \<open>R\<close> with \<open>0 \<le> R \<le> 2147483647\<close> and a
  buffer of \<open>N \<le> 4294967259\<close> bytes, \<^verbatim>\<open>_toWav\<close> returns \<open>44 + N\<close> bytes: a RIFF/WAVE
  header that declares PCM (format 1), one channel, sample rate \<open>R\<close>, byte rate \<open>2R\<close>,
  block size 2, 16 bits per sample and a data chunk of \<open>N\<close> bytes, followed by the input.
  For every other rate and every longer buffer \<^verbatim>\<open>writeUInt32LE\<close> throws a RangeError and
  no buffer is returned.
\<close>

theorem toWav_container:
  "(0 \<le> rate \<and> rate \<le> 2147483647 \<and> length pcm \<le> 4294967259 \<longrightarrow>
      (\<exists>wav. toWav pcm rate = Inr wav \<and> length wav = 44 + length pcm \<and>
           field wav 0 4 = ascii ''RIFF'' \<and>
           readUInt32LE wav 4 = 36 + int (length pcm) \<and>
           field wav 8 4 = ascii ''WAVE'' \<and>
           field wav 12 4 = ascii ''fmt '' \<and>
           readUInt32LE wav 16 = 16 \<and>
           readUInt16LE wav 20 = 1 \<and>
           readUInt16LE wav 22 = 1 \<and>
           readUInt32LE wav 24 = rate \<and>
           readUInt32LE wav 28 = rate * 2 \<and>
           readUInt16LE wav 32 = 2 \<and>
           readUInt16LE wav 34 = 16 \<and>
           field wav 36 4 = ascii ''data'' \<and>
           readUInt32LE wav 40 = int (length pcm) \<and>
           drop 44 wav = pcm)) \<and>
   (rate < 0 \<or> 2147483647 < rate \<or> 4294967259 < length pcm \<longrightarrow>
      toWav pcm rate = Inl RangeError)"
proof (intro conjI impI)
  assume "0 \<le> rate \<and> rate \<le> 2147483647 \<and> length pcm \<le> 4294967259"
  then have "0 \<le> rate" and "rate \<le> 2147483647" and "length pcm \<le> 4294967259"
    by simp_all
  then show "\<exists>wav. toWav pcm rate = Inr wav \<and> length wav = 44 + length pcm \<and>
           field wav 0 4 = ascii ''RIFF'' \<and>
           readUInt32LE wav 4 = 36 + int (length pcm) \<and>
           field wav 8 4 = ascii ''WAVE'' \<and>
           field wav 12 4 = ascii ''fmt '' \<and>
           readUInt32LE wav 16 = 16 \<and>
           readUInt16LE wav 20 = 1 \<and>
           readUInt16LE wav 22 = 1 \<and>
           readUInt32LE wav 24 = rate \<and>
           readUInt32LE wav 28 = rate * 2 \<and>
           readUInt16LE wav 32 = 2 \<and>
           readUInt16LE wav 34 = 16 \<and>
           field wav 36 4 = ascii ''data'' \<and>
           readUInt32LE wav 40 = int (length pcm) \<and>
           drop 44 wav = pcm"
    by (rule toWav_header)
next
  assume "rate < 0 \<or> 2147483647 < rate \<or> 4294967259 < length pcm"
  then show "toWav pcm rate = Inl RangeError"
    by (rule toWav_out_of_range)
qed

lemma leBytes4: "leBytes 4 v = [word_of_int v, word_of_int (v div 256), word_of_int (v div 256 div 256), word_of_int (v div 256 div 256 div 256)]"
  by (simp add: eval_nat_numeral)

lemma leBytes2: "leBytes 2 v = [word_of_int v, word_of_int (v div 256)]"
  by (simp add: eval_nat_numeral)

lemma toWav_example: "toWav [1, 2] 48000 = Inr exampleWav"
  by (simp add: toWav_ok wavHeader_def leBytes4 leBytes2 exampleWav_def)

theorem toWav_container_witness:
  "(0::int) \<le> 48000 \<and> (48000::int) \<le> 2147483647 \<and> length [1, 2 :: byte] \<le> 4294967259 \<and>
   toWav [1, 2] 48000 = Inr exampleWav \<and> length exampleWav = 46 \<and>
   readUInt16LE exampleWav 22 = 1 \<and> readUInt32LE exampleWav 24 = 48000 \<and>
   readUInt16LE exampleWav 34 = 16 \<and> readUInt32LE exampleWav 40 = 2 \<and>
   drop 44 exampleWav = [1, 2] \<and>
   toWav [1, 2] (- 1) = Inl RangeError \<and> toWav [1, 2] 4294967296 = Inl RangeError"
proof -
  have out: "toWav [1, 2] (- 1) = Inl RangeError" "toWav [1, 2] 4294967296 = Inl RangeError"
    using toWav_container [of "- 1" "[1, 2]"] toWav_container [of 4294967296 "[1, 2]"]
    by simp_all
  have "\<exists>wav. toWav [1, 2] 48000 = Inr wav \<and> length wav = 44 + length [1, 2 :: byte] \<and>
           field wav 0 4 = ascii ''RIFF'' \<and>
           readUInt32LE wav 4 = 36 + int (length [1, 2 :: byte]) \<and>
           field wav 8 4 = ascii ''WAVE'' \<and>
           field wav 12 4 = ascii ''fmt '' \<and>
           readUInt32LE wav 16 = 16 \<and>
           readUInt16LE wav 20 = 1 \<and>
           readUInt16LE wav 22 = 1 \<and>
           readUInt32LE wav 24 = 48000 \<and>
           readUInt32LE wav 28 = 48000 * 2 \<and>
           readUInt16LE wav 32 = 2 \<and>
           readUInt16LE wav 34 = 16 \<and>
           field wav 36 4 = ascii ''data'' \<and>
           readUInt32LE wav 40 = int (length [1, 2 :: byte]) \<and>
           drop 44 wav = [1, 2]"
    using toWav_container [of 48000 "[1, 2]"] by simp
  then obtain wav where "toWav [1, 2] 48000 = Inr wav" and "length wav = 44 + length [1, 2 :: byte]"
    and "readUInt16LE wav 22 = 1" and "readUInt32LE wav 24 = 48000" and "readUInt16LE wav 34 = 16"
    and "readUInt32LE wav 40 = int (length [1, 2 :: byte])" and "drop 44 wav = [1, 2]"
    by blast
  moreover from this have "wav = exampleWav"
    by (simp add: toWav_example)
  ultimately show ?thesis using out by simp
qed

text \<open>
  C9 as stated fails: a rate whose byte rate does not fit 32 bits, or a buffer of more
  than 4294967259 bytes, makes \<^verbatim>\<open>writeUInt32LE\<close> throw, and no container is returned.
\<close>

theorem toWav_range_counterexample:
  "toWav [] 2147483648 = Inl RangeError \<and> toWav (replicate 4294967260 0) 48000 = Inl RangeError"
  by (simp add: toWav_def andThen_def writeUInt32LE_def writeUInt16LE_def length_writeBytes)

section \<open>Frame properties of the relay\<close>

lemma updateConn_simps [simp]:
  "jobs (updateConn w c f) = jobs w"
  "engine (updateConn w c f) = engine w"
  "activeSessions (updateConn w c f) = activeSessions w"
  "conns (updateConn w c f) x = (if x = c then f (conns w c) else conns w x)"
  by (simp_all add: updateConn_def)

lemma sendToUI_fields [simp]:
  "isProcessing (sendToUI x m) = isProcessing x"
  "roomId (sendToUI x m) = roomId x"
  "userType (sendToUI x m) = userType x"
  "myLanguage (sendToUI x m) = myLanguage x"
  "sentence (sendToUI x m) = sentence x"
  "lastSentence (sendToUI x m) = lastSentence x"
  "lastInterim (sendToUI x m) = lastInterim x"
  by (simp_all add: sendToUI_def)

lemma inFlight_cong:
  "jobs w' = jobs w \<Longrightarrow> engine w' = engine w \<Longrightarrow> inFlight w' c = inFlight w c"
  by (simp add: inFlight_def)

lemma deliver_frame [simp]:
  "jobs (deliver w c p text tr) = jobs w"
  "engine (deliver w c p text tr) = engine w"
  "activeSessions (deliver w c p text tr) = activeSessions w"
  "isProcessing (conns (deliver w c p text tr) x) = isProcessing (conns w x)"
  by (simp_all add: deliver_def Let_def)

lemma afterTranslate_frame:
  "jobs (afterTranslate w c p text tr) = jobs w"
  "\<exists>l. engine (afterTranslate w c p text tr) = engine w @ [TtsCall c p tr l]"
  "isProcessing (conns (afterTranslate w c p text tr) x) = isProcessing (conns w x)"
  by (simp_all add: afterTranslate_def Let_def)

lemma afterTts_frame:
  "jobs (afterTts w c p audio) = jobs w"
  "engine (afterTts w c p audio) = engine w"
  "isProcessing (conns (afterTts w c p audio) x) = (x \<noteq> c \<and> isProcessing (conns w x))"
  by (auto simp: afterTts_def Let_def split: option.splits sum.splits)

lemma notifyPartner_frame:
  "jobs (notifyPartner w c m) = jobs w"
  "engine (notifyPartner w c m) = engine w"
  "isProcessing (conns (notifyPartner w c m) x) = isProcessing (conns w x)"
  by (auto simp: notifyPartner_def split: option.splits)

lemma detach_frame:
  "jobs (detach w c) = jobs w"
  "engine (detach w c) = engine w"
  "conns (detach w c) = conns w"
  by (auto simp: detach_def Let_def split: option.splits)

lemma afterStopStream_frame:
  "jobs (afterStopStream w c) = jobs w"
  "engine (afterStopStream w c) = engine w"
  "isProcessing (conns (afterStopStream w c) x) = isProcessing (conns w x)"
  by (simp_all add: afterStopStream_def notifyPartner_frame detach_frame)

lemma lookupSession_frame [simp]:
  "lookupSession (updateConn w c f) r = lookupSession w r"
  "lookupSession (w\<lparr>conns := cs\<rparr>) r = lookupSession w r"
  "lookupSession (w\<lparr>jobs := q\<rparr>) r = lookupSession w r"
  "lookupSession (w\<lparr>engine := es\<rparr>) r = lookupSession w r"
  by (simp_all add: lookupSession_def split: option.splits)

lemma lookupSession_cong:
  "activeSessions v = activeSessions w \<Longrightarrow> lookupSession v r = lookupSession w r"
  by (simp add: lookupSession_def split: option.splits)

lemma partnerOf_frame [simp]:
  "partnerOf (x\<lparr>sentenceTimer := a\<rparr>) s = partnerOf x s"
  "partnerOf (x\<lparr>lastSentence := t\<rparr>) s = partnerOf x s"
  "partnerOf (x\<lparr>sentence := t\<rparr>) s = partnerOf x s"
  "partnerOf (x\<lparr>isProcessing := b\<rparr>) s = partnerOf x s"
  "partnerOf (stopStream x) s = partnerOf x s"
  "partnerOf (sendToUI x m) s = partnerOf x s"
  by (simp_all add: partnerOf_def stopStream_def)

lemma stopStream_fields [simp]:
  "ws (stopStream x) = ws x"
  "roomId (stopStream x) = roomId x"
  "userType (stopStream x) = userType x"
  "myLanguage (stopStream x) = myLanguage x"
  "isProcessing (stopStream x) = isProcessing x"
  "sentence (stopStream x) = sentence x"
  "lastSentence (stopStream x) = lastSentence x"
  by (simp_all add: stopStream_def)

lemma afterTranslate_conn:
  "readyState (ws (conns (afterTranslate v c p t tr) x)) = readyState (ws (conns v x))"
  "roomId (conns (afterTranslate v c p t tr) x) = roomId (conns v x)"
  "userType (conns (afterTranslate v c p t tr) x) = userType (conns v x)"
  "myLanguage (conns (afterTranslate v c p t tr) x) = myLanguage (conns v x)"
  "activeSessions (afterTranslate v c p t tr) = activeSessions v"
  by (simp_all add: afterTranslate_def deliver_def Let_def sendToUI_def)

lemma afterStopStream_conn:
  "readyState (ws (conns (afterStopStream v c) x)) = readyState (ws (conns v x))"
  "roomId (conns (afterStopStream v c) x) = roomId (conns v x)"
  "userType (conns (afterStopStream v c) x) = userType (conns v x)"
  "myLanguage (conns (afterStopStream v c) x) = myLanguage (conns v x)"
  by (auto simp: afterStopStream_def notifyPartner_def detach_frame split: option.splits)

text \<open>The error handler as an event, in the order of the source.\<close>

lemma processing_lastInterim:
  "x\<lparr>isProcessing := b, lastInterim := l\<rparr> = x\<lparr>lastInterim := l, isProcessing := b\<rparr>"
  by (cases x) simp

lemma translateAndSpeak_lastInterim:
  "translateAndSpeak (updateConn w c (\<lambda>x. x\<lparr>lastInterim := []\<rparr>)) c t =
   updateConn (translateAndSpeak w c t) c (\<lambda>x. x\<lparr>lastInterim := []\<rparr>)"
  by (simp add: translateAndSpeak_def updateConn_def Let_def partnerOf_def lookupSession_def
      processing_lastInterim split: option.splits translateStep.splits)

lemma relay_lastInterim:
  "relay (updateConn w c (\<lambda>x. x\<lparr>lastInterim := []\<rparr>)) c d =
   updateConn (relay w c d) c (\<lambda>x. x\<lparr>lastInterim := []\<rparr>)"
  by (cases d) (simp_all add: relay_def translateAndSpeak_lastInterim)

lemma onSttError_source_order:
  "onSttError w c =
     (let c1 = (conns w c)\<lparr>isStreaming := False, recognizeStream := False\<rparr>;
          c2 = (if sentence c1 = [] \<and> lastInterim c1 \<noteq> [] \<and> lastInterim c1 \<noteq> lastSentence c1
                then c1\<lparr>sentence := lastInterim c1\<rparr> else c1);
          (c3, d) = (if sentence c2 \<noteq> [] \<and> sentence c2 \<noteq> lastSentence c2
                     then finalizeSentence c2 else (c2, None));
          w3 = relay (w\<lparr>conns := (conns w)(c := c3)\<rparr>) c d
      in updateConn w3 c (\<lambda>x. x\<lparr>lastInterim := []\<rparr>))"
proof -
  have "relay (w\<lparr>conns := (conns w)(c := c3\<lparr>lastInterim := []\<rparr>)\<rparr>) c d =
      updateConn (relay (w\<lparr>conns := (conns w)(c := c3)\<rparr>) c d) c (\<lambda>x. x\<lparr>lastInterim := []\<rparr>)"
    for c3 d
    using relay_lastInterim [of "w\<lparr>conns := (conns w)(c := c3)\<rparr>" c d]
    by (simp add: updateConn_def)
  then show ?thesis
    by (simp add: onSttError_def handleSTTError_def Let_def split: prod.splits)
qed

section \<open>Single flight\<close>

lemma translateAndSpeak_dropped:
  "isProcessing (conns w c) \<or> text = [] \<Longrightarrow> translateAndSpeak w c text = w"
  by (simp add: translateAndSpeak_def)

lemma translateAndSpeak_cases:
  assumes "\<not> isProcessing (conns w c)" and "text \<noteq> []"
  shows "translateAndSpeak w c text = updateConn w c (\<lambda>x. x\<lparr>isProcessing := False\<rparr>) \<or>
         (\<exists>p t. translateAndSpeak w c text =
            (updateConn w c (\<lambda>x. x\<lparr>isProcessing := True\<rparr>))
              \<lparr>jobs := jobs w @ [AfterTranslate c p text t]\<rparr>) \<or>
         (\<exists>p f l. translateAndSpeak w c text =
            (updateConn w c (\<lambda>x. x\<lparr>isProcessing := True\<rparr>))
              \<lparr>engine := engine w @ [TranslateCall c p text f l]\<rparr>)"
proof -
  let ?w1 = "updateConn w c (\<lambda>x. x\<lparr>isProcessing := True\<rparr>)"
  let ?fin = "updateConn w c (\<lambda>x. x\<lparr>isProcessing := False\<rparr>)"
  have fin: "updateConn ?w1 c (\<lambda>x. x\<lparr>isProcessing := False\<rparr>) = ?fin"
    by (simp add: updateConn_def)
  show ?thesis
  proof (cases "lookupSession ?w1 (roomId (conns ?w1 c))")
    case None
    then have "translateAndSpeak w c text = ?fin"
      using assms fin by (simp add: translateAndSpeak_def Let_def)
    then show ?thesis by simp
  next
    case (Some s)
    note session = Some
    show ?thesis
    proof (cases "partnerOf (conns ?w1 c) s")
      case None
      then have "translateAndSpeak w c text = ?fin"
        using assms fin session by (simp add: translateAndSpeak_def Let_def)
      then show ?thesis by simp
    next
      case (Some p)
      note partner = Some
      show ?thesis
      proof (cases "truthy (myLanguage (conns ?w1 p))")
        case False
        then have "translateAndSpeak w c text = ?fin"
          using assms fin session partner by (simp add: translateAndSpeak_def Let_def)
        then show ?thesis by simp
      next
        case True
        show ?thesis
        proof (cases "translate text (myLanguage (conns ?w1 c)) (myLanguage (conns ?w1 p))")
          case (Resolved t)
          then have "translateAndSpeak w c text = ?w1\<lparr>jobs := jobs w @ [AfterTranslate c p text t]\<rparr>"
            using assms session partner True by (simp add: translateAndSpeak_def Let_def)
          then show ?thesis by blast
        next
          case (CallEngine t f l)
          then have "translateAndSpeak w c text =
              ?w1\<lparr>engine := engine w @ [TranslateCall c p text f l]\<rparr>"
            using assms session partner True by (simp add: translateAndSpeak_def Let_def)
          then show ?thesis by blast
        qed
      qed
    qed
  qed
qed

lemma singleFlight_translateAndSpeak:
  assumes "singleFlight w x"
  shows "singleFlight (translateAndSpeak w c text) x"
proof (cases "isProcessing (conns w c) \<or> text = []")
  case True
  then show ?thesis using assms by (simp add: translateAndSpeak_dropped)
next
  case False
  then have idle: "\<not> isProcessing (conns w c)" and nonempty: "text \<noteq> []" by simp_all
  from translateAndSpeak_cases [OF idle nonempty]
  consider
    (finished) "translateAndSpeak w c text = updateConn w c (\<lambda>x. x\<lparr>isProcessing := False\<rparr>)"
  | (job) p t where "translateAndSpeak w c text =
            (updateConn w c (\<lambda>x. x\<lparr>isProcessing := True\<rparr>))
              \<lparr>jobs := jobs w @ [AfterTranslate c p text t]\<rparr>"
  | (call) p f l where "translateAndSpeak w c text =
            (updateConn w c (\<lambda>x. x\<lparr>isProcessing := True\<rparr>))
              \<lparr>engine := engine w @ [TranslateCall c p text f l]\<rparr>"
    by blast
  then show ?thesis
  proof cases
    case finished
    then show ?thesis using assms idle by (simp add: singleFlight_def inFlight_def)
  next
    case job
    then show ?thesis using assms idle
      by (cases "x = c") (simp_all add: singleFlight_def inFlight_def)
  next
    case call
    then show ?thesis using assms idle
      by (cases "x = c") (simp_all add: singleFlight_def inFlight_def)
  qed
qed

lemma singleFlight_relay: "singleFlight w x \<Longrightarrow> singleFlight (relay w c d) x"
  by (simp add: relay_def singleFlight_translateAndSpeak split: option.splits)

lemma singleFlight_conn:
  "isProcessing c1 = isProcessing (conns w c) \<Longrightarrow>
   singleFlight (w\<lparr>conns := (conns w)(c := c1)\<rparr>) x = singleFlight w x"
  by (simp add: singleFlight_def inFlight_def)

lemma isProcessing_handleSTTData: "isProcessing (handleSTTData c r) = isProcessing c"
  by (simp add: handleSTTData_fragment resetSentenceTimer_def split: option.splits)

lemma isProcessing_finalizeSentence: "isProcessing (fst (finalizeSentence c)) = isProcessing c"
  by (simp add: finalizeSentence_def Let_def)

lemma isProcessing_handleSTTError: "isProcessing (fst (handleSTTError c)) = isProcessing c"
  by (simp add: handleSTTError_def finalizeSentence_def Let_def split: prod.splits)

lemma isProcessing_flushPending: "isProcessing (fst (flushPending c)) = isProcessing c"
  by (simp add: flushPending_def finalizeSentence_def Let_def)

lemma singleFlight_onSttData: "singleFlight w x \<Longrightarrow> singleFlight (onSttData w c r) x"
  by (simp add: onSttData_def updateConn_def singleFlight_conn isProcessing_handleSTTData)

lemma singleFlight_onSttError: "singleFlight w x \<Longrightarrow> singleFlight (onSttError w c) x"
proof -
  assume a: "singleFlight w x"
  obtain c1 d where h: "handleSTTError (conns w c) = (c1, d)" by (cases "handleSTTError (conns w c)")
  then have "isProcessing c1 = isProcessing (conns w c)"
    using isProcessing_handleSTTError [of "conns w c"] by simp
  with a have "singleFlight (w\<lparr>conns := (conns w)(c := c1)\<rparr>) x"
    by (simp add: singleFlight_conn)
  then show ?thesis by (simp add: onSttError_def h singleFlight_relay)
qed

lemma singleFlight_onTimer: "singleFlight w x \<Longrightarrow> singleFlight (onTimer w c) x"
proof -
  assume a: "singleFlight w x"
  obtain c1 d where h: "finalizeSentence (conns w c) = (c1, d)"
    by (cases "finalizeSentence (conns w c)")
  then have "isProcessing c1 = isProcessing (conns w c)"
    using isProcessing_finalizeSentence [of "conns w c"] by simp
  with a have "singleFlight (w\<lparr>conns := (conns w)(c := c1)\<rparr>) x"
    by (simp add: singleFlight_conn)
  then show ?thesis by (simp add: onTimer_def timerFired_def h singleFlight_relay)
qed

lemma singleFlight_cleanup: "singleFlight w x \<Longrightarrow> singleFlight (cleanup w c) x"
proof -
  assume a: "singleFlight w x"
  obtain c1 d where h: "flushPending (conns w c) = (c1, d)"
    by (cases "flushPending (conns w c)")
  then have "isProcessing c1 = isProcessing (conns w c)"
    using isProcessing_flushPending [of "conns w c"] by simp
  with a have "singleFlight (w\<lparr>conns := (conns w)(c := c1)\<rparr>) x"
    by (simp add: singleFlight_conn)
  then have "singleFlight (relay (w\<lparr>conns := (conns w)(c := c1)\<rparr>) c d) x"
    by (rule singleFlight_relay)
  then show ?thesis
    by (simp add: cleanup_def h Let_def singleFlight_def inFlight_def stopStream_def)
qed

lemma length_filter_remove1:
  "a \<in> set xs \<Longrightarrow>
   length (filter P xs) = length (filter P (remove1 a xs)) + (if P a then 1 else 0)"
  by (induction xs) auto

lemma singleFlight_translateSettles:
  "singleFlight w x \<Longrightarrow> singleFlight (translateSettles w call outcome) x"
proof (cases call)
  case (TranslateCall c p tx f l)
  show ?thesis if "singleFlight w x"
  proof (cases "call \<in> set (engine w)")
    case True
    then show ?thesis
      using that length_filter_remove1 [of call "engine w" "\<lambda>e. callOwner e = x"] TranslateCall
      by (auto simp: translateSettles_def singleFlight_def inFlight_def split: if_splits)
  next
    case False
    then show ?thesis using that TranslateCall by (simp add: translateSettles_def)
  qed
next
  case (TtsCall c p tr l)
  then show "singleFlight w x \<Longrightarrow> ?thesis" by (simp add: translateSettles_def)
qed

lemma singleFlight_ttsSettles:
  "singleFlight w x \<Longrightarrow> singleFlight (ttsSettles w call outcome) x"
proof (cases call)
  case (TtsCall c p tr l)
  show ?thesis if "singleFlight w x"
  proof (cases "call \<in> set (engine w)")
    case True
    then show ?thesis
      using that length_filter_remove1 [of call "engine w" "\<lambda>e. callOwner e = x"] TtsCall
      by (auto simp: ttsSettles_def singleFlight_def inFlight_def split: if_splits)
  next
    case False
    then show ?thesis using that TtsCall by (simp add: ttsSettles_def)
  qed
next
  case (TranslateCall c p tx f l)
  then show "singleFlight w x \<Longrightarrow> ?thesis" by (simp add: ttsSettles_def)
qed

lemma singleFlight_runJob:
  assumes "jobs w = j # rest" and "singleFlight w x"
  shows "singleFlight (runJob (w\<lparr>jobs := rest\<rparr>) j) x"
proof (cases j)
  case (AfterTranslate c p tx tr)
  obtain l where "engine (afterTranslate (w\<lparr>jobs := rest\<rparr>) c p tx tr) = engine w @ [TtsCall c p tr l]"
    using afterTranslate_frame(2) [of "w\<lparr>jobs := rest\<rparr>" c p tx tr] by auto
  then show ?thesis
    using assms AfterTranslate
    by (auto simp: singleFlight_def inFlight_def afterTranslate_frame split: if_splits)
next
  case (AfterTts c p audio)
  then show ?thesis
    using assms by (auto simp: singleFlight_def inFlight_def afterTts_frame split: if_splits)
next
  case (AfterStopStream c)
  then show ?thesis
    using assms by (auto simp: singleFlight_def inFlight_def afterStopStream_frame split: if_splits)
qed

lemma singleFlight_drain: "singleFlight w x \<Longrightarrow> singleFlight (drain n w) x"
proof (induction n arbitrary: w)
  case 0
  then show ?case by simp
next
  case (Suc n)
  show ?case
  proof (cases "jobs w")
    case Nil
    then show ?thesis using Suc.prems by simp
  next
    case (Cons j rest)
    then have "singleFlight (runJob (w\<lparr>jobs := rest\<rparr>) j) x"
      using Suc.prems by (rule singleFlight_runJob)
    then show ?thesis using Cons by (simp add: Suc.IH)
  qed
qed

lemma singleFlight_turn: "singleFlight w x \<Longrightarrow> singleFlight (turn w e) x"
  unfolding turn_def drainAll_def
  by (cases e)
    (simp_all add: singleFlight_drain singleFlight_onSttData singleFlight_onSttError
      singleFlight_onTimer singleFlight_cleanup singleFlight_translateSettles
      singleFlight_ttsSettles)

lemma jobs_runJob: "jobs (runJob w j) = jobs w"
  by (cases j) (simp_all add: afterTranslate_frame afterTts_frame afterStopStream_frame)

lemma jobs_drain: "length (jobs w) \<le> n \<Longrightarrow> jobs (drain n w) = []"
proof (induction n arbitrary: w)
  case 0
  then show ?case by simp
next
  case (Suc n)
  show ?case
  proof (cases "jobs w")
    case Nil
    then show ?thesis by simp
  next
    case (Cons j rest)
    then have "length (jobs (runJob (w\<lparr>jobs := rest\<rparr>) j)) \<le> n"
      using Suc.prems by (simp add: jobs_runJob)
    then show ?thesis using Cons by (simp add: Suc.IH)
  qed
qed

lemma jobs_drainAll: "jobs (drainAll w) = []"
  by (simp add: drainAll_def jobs_drain)

lemmas example_defs =
  callWorld_def callerConn_def receiverConn_def pairedRoom_def fullRoom_def waitingRoom_def
  room1_def openSocket_def closedSocket_def newConnection_def

text \<open>
  C3.  A call of \<^verbatim>\<open>_translateAndSpeak\<close> made while the processing flag is set returns
  at once and leaves the whole state as it is: no job, no engine call, no message and no
  change of the suspended round.  The flag is set exactly while one round of the
  connection is suspended (\<open>singleFlight\<close>), and this is kept by every call of the relay
  and by every turn of the event loop, so at most one round is in flight.
\<close>

theorem single_flight:
  "(isProcessing (conns w c) \<longrightarrow> translateAndSpeak w c text = w) \<and>
   (singleFlight w x \<longrightarrow>
      singleFlight (translateAndSpeak w c text) x \<and> singleFlight (turn w e) x \<and>
      inFlight w x \<le> 1)"
  by (simp add: translateAndSpeak_dropped singleFlight_translateAndSpeak singleFlight_turn)
    (simp add: singleFlight_def)

theorem single_flight_witness:
  "isProcessing (conns busyWorld 0) \<and> singleFlight busyWorld 0 \<and>
   engine busyWorld = [TranslateCall 0 1 (js ''Hello'') (js ''en'') (js ''es'')] \<and>
   translateAndSpeak busyWorld 0 (js ''I am'') = busyWorld \<and>
   singleFlight (translateAndSpeak busyWorld 0 (js ''I am'')) 0 \<and>
   singleFlight (turn busyWorld (TimerFired 0)) 0 \<and> inFlight busyWorld 0 \<le> 1"
proof -
  have b: "busyWorld =
      (callWorld ''es'' [])\<lparr>conns := (conns (callWorld ''es'' []))
           (0 := (callerConn [])\<lparr>isProcessing := True\<rparr>),
         engine := [TranslateCall 0 1 (js ''Hello'') (js ''en'') (js ''es'')]\<rparr>"
    by (simp add: busyWorld_def example_defs translateAndSpeak_def translate_def langBase_def
        orElse_def hyphen_def truthy_def partnerOf_def lookupSession_def updateConn_def js_def
        Let_def)
  have p: "isProcessing (conns busyWorld 0)"
    by (simp add: b)
  have e: "engine busyWorld = [TranslateCall 0 1 (js ''Hello'') (js ''en'') (js ''es'')]"
    by (simp add: b)
  have s: "singleFlight busyWorld 0"
    by (simp add: b singleFlight_def inFlight_def callWorld_def)
  show ?thesis
    using single_flight [of busyWorld 0 "js ''I am''" 0 "TimerFired 0"] p s e by simp
qed

section \<open>Release of the processing flag\<close>

lemma translateAndSpeakRun_releases:
  assumes "\<not> isProcessing (conns w c)"
  shows "\<not> isProcessing (conns (translateAndSpeakRun w c text tr sy) c)"
proof (cases "text = []")
  case True
  then show ?thesis using assms by (simp add: translateAndSpeakRun_def)
next
  case False
  let ?w1 = "updateConn w c (\<lambda>x. x\<lparr>isProcessing := True\<rparr>)"
  show ?thesis
  proof (cases "lookupSession ?w1 (roomId (conns ?w1 c))")
    case None
    then show ?thesis using assms False by (simp add: translateAndSpeakRun_def Let_def)
  next
    case (Some s)
    note session = Some
    show ?thesis
    proof (cases "partnerOf (conns ?w1 c) s")
      case None
      then show ?thesis
        using assms False session by (simp add: translateAndSpeakRun_def Let_def)
    next
      case (Some p)
      then show ?thesis
        using assms False session
        by (simp add: translateAndSpeakRun_def Let_def afterTts_frame)
    qed
  qed
qed

lemma translateAndSpeak_suspends:
  assumes "isProcessing (conns (translateAndSpeak w c text) c)" and "\<not> isProcessing (conns w c)"
  shows "inFlight (translateAndSpeak w c text) c = inFlight w c + 1"
proof -
  have nonempty: "text \<noteq> []"
    using assms by (auto simp: translateAndSpeak_def)
  from translateAndSpeak_cases [OF assms(2) nonempty]
  consider
    (finished) "translateAndSpeak w c text = updateConn w c (\<lambda>x. x\<lparr>isProcessing := False\<rparr>)"
  | (job) p t where "translateAndSpeak w c text =
            (updateConn w c (\<lambda>x. x\<lparr>isProcessing := True\<rparr>))
              \<lparr>jobs := jobs w @ [AfterTranslate c p text t]\<rparr>"
  | (call) p f l where "translateAndSpeak w c text =
            (updateConn w c (\<lambda>x. x\<lparr>isProcessing := True\<rparr>))
              \<lparr>engine := engine w @ [TranslateCall c p text f l]\<rparr>"
    by blast
  then show ?thesis
  proof cases
    case finished
    then show ?thesis using assms(1) by simp
  next
    case job
    then show ?thesis by (simp add: inFlight_def)
  next
    case call
    then show ?thesis by (simp add: inFlight_def)
  qed
qed

text \<open>
  The uninterrupted run is the stepwise run in which the services answer at once and
  nothing else happens in between.
\<close>

lemma jobs_Nil_update: "jobs v = [] \<Longrightarrow> v\<lparr>jobs := []\<rparr> = v"
  by (cases v) simp

lemma engine_same_update: "engine v = es \<Longrightarrow> v\<lparr>engine := es\<rparr> = v"
  by (cases v) auto

lemma drainAll_idle: "jobs v = [] \<Longrightarrow> drainAll v = v"
  by (simp add: drainAll_def)

lemma drainAll_one: "jobs v = [j] \<Longrightarrow> drainAll v = runJob (v\<lparr>jobs := []\<rparr>) j"
  by (simp add: drainAll_def jobs_runJob)

lemma answerNext_none:
  "filter (\<lambda>e. callOwner e = c) (engine v) = [] \<Longrightarrow> answerNext tr sy c v = v"
  by (simp add: answerNext_def)

lemma answerNext_last:
  "filter (\<lambda>e. callOwner e = c) es = [] \<Longrightarrow> callOwner call = c \<Longrightarrow> engine v = es @ [call] \<Longrightarrow>
   answerNext tr sy c v = answer tr sy v call"
  by (simp add: answerNext_def)

lemma remove1_last: "filter P es = [] \<Longrightarrow> P a \<Longrightarrow> remove1 a (es @ [a]) = es"
  by (induction es) (auto split: if_splits)

lemma answer_tts:
  assumes "jobs v = []" and "engine v = es @ [TtsCall c p t l]"
    and "filter (\<lambda>e. callOwner e = c) es = []"
  shows "answer tr sy v (TtsCall c p t l) = afterTts (v\<lparr>engine := es\<rparr>) c p (sy t l)"
proof -
  have r: "remove1 (TtsCall c p t l) (es @ [TtsCall c p t l]) = es"
    using assms(3) by (intro remove1_last [where P = "\<lambda>e. callOwner e = c"]) simp_all
  have "ttsSettles v (TtsCall c p t l) (sy t l) =
      v\<lparr>engine := es, jobs := [AfterTts c p (sy t l)]\<rparr>"
    using assms(1,2) r by (simp add: ttsSettles_def)
  then show ?thesis
    using assms(1) by (simp add: turn_def drainAll_one jobs_Nil_update)
qed

lemma answer_translate:
  assumes "jobs v = []" and "engine v = es @ [TranslateCall c p t f l]"
    and "filter (\<lambda>e. callOwner e = c) es = []"
  shows "answer tr sy v (TranslateCall c p t f l) =
           afterTranslate (v\<lparr>engine := es\<rparr>) c p t (translated t (tr t f l))"
proof -
  have r: "remove1 (TranslateCall c p t f l) (es @ [TranslateCall c p t f l]) = es"
    using assms(3) by (intro remove1_last [where P = "\<lambda>e. callOwner e = c"]) simp_all
  have "translateSettles v (TranslateCall c p t f l) (tr t f l) =
      v\<lparr>engine := es, jobs := [AfterTranslate c p t (translated t (tr t f l))]\<rparr>"
    using assms(1,2) r by (simp add: translateSettles_def)
  then show ?thesis
    using assms(1) by (simp add: turn_def drainAll_one jobs_Nil_update)
qed

lemma answerNext_afterTranslate:
  assumes "jobs v = []" and "filter (\<lambda>e. callOwner e = c) (engine v) = []"
  shows "answerNext tr sy c (afterTranslate v c p t x) =
           afterTts (deliver v c p t x) c p (sy x (myLanguage (conns (deliver v c p t x) p)))"
proof -
  let ?d = "deliver v c p t x"
  let ?l = "myLanguage (conns ?d p)"
  let ?a = "afterTranslate v c p t x"
  have a: "?a = ?d\<lparr>engine := engine v @ [TtsCall c p x ?l]\<rparr>"
    by (simp add: afterTranslate_def Let_def)
  have j: "jobs ?a = []" and e: "engine ?a = engine v @ [TtsCall c p x ?l]"
    using assms(1) by (simp_all add: a)
  have "answerNext tr sy c ?a = answer tr sy ?a (TtsCall c p x ?l)"
    using assms(2) e by (intro answerNext_last [where es = "engine v"]) simp_all
  also have "\<dots> = afterTts (?a\<lparr>engine := engine v\<rparr>) c p (sy x ?l)"
    using j e assms(2) by (rule answer_tts)
  also have "?a\<lparr>engine := engine v\<rparr> = ?d"
    by (simp add: a engine_same_update)
  finally show ?thesis .
qed

lemma answerNext_idle:
  assumes "filter (\<lambda>e. callOwner e = c) (engine v) = []"
  shows "answerNext tr sy c (afterTts v c p audio) = afterTts v c p audio"
  using assms by (intro answerNext_none) (simp add: afterTts_frame)

lemma run_by_turns:
  assumes "jobs w = []" and "filter (\<lambda>e. callOwner e = c) (engine w) = []"
  shows "answerNext tr sy c (answerNext tr sy c (drainAll (translateAndSpeak w c text))) =
           translateAndSpeakRun w c text tr sy"
proof (cases "isProcessing (conns w c) \<or> text = []")
  case True
  then show ?thesis
    using assms by (simp add: translateAndSpeak_def translateAndSpeakRun_def drainAll_idle
        answerNext_none)
next
  case False
  let ?w1 = "updateConn w c (\<lambda>x. x\<lparr>isProcessing := True\<rparr>)"
  let ?fin = "updateConn w c (\<lambda>x. x\<lparr>isProcessing := False\<rparr>)"
  have fin: "updateConn ?w1 c (\<lambda>x. x\<lparr>isProcessing := False\<rparr>) = ?fin"
    by (simp add: updateConn_def)
  have j1: "jobs ?w1 = []" and e1: "filter (\<lambda>e. callOwner e = c) (engine ?w1) = []"
    using assms by simp_all
  have early: "answerNext tr sy c (answerNext tr sy c (drainAll ?fin)) = ?fin"
    using assms by (simp add: drainAll_idle answerNext_none)
  show ?thesis
  proof (cases "lookupSession ?w1 (roomId (conns ?w1 c))")
    case None
    then have "translateAndSpeak w c text = ?fin" and "translateAndSpeakRun w c text tr sy = ?fin"
      using False fin by (simp_all add: translateAndSpeak_def translateAndSpeakRun_def Let_def)
    then show ?thesis using early by simp
  next
    case (Some s)
    note session = Some
    show ?thesis
    proof (cases "partnerOf (conns ?w1 c) s")
      case None
      then have "translateAndSpeak w c text = ?fin"
        and "translateAndSpeakRun w c text tr sy = ?fin"
        using False fin session
        by (simp_all add: translateAndSpeak_def translateAndSpeakRun_def Let_def)
      then show ?thesis using early by simp
    next
      case (Some p)
      note partner = Some
      show ?thesis
      proof (cases "truthy (myLanguage (conns ?w1 p))")
        case False
        then have "translateAndSpeak w c text = ?fin"
          and "translateAndSpeakRun w c text tr sy = ?fin"
          using \<open>\<not> (isProcessing (conns w c) \<or> text = [])\<close> fin session partner
          by (simp_all add: translateAndSpeak_def translateAndSpeakRun_def Let_def)
        then show ?thesis using early by simp
      next
        case True
        note lang = True
        show ?thesis
        proof (cases "translate text (myLanguage (conns ?w1 c)) (myLanguage (conns ?w1 p))")
          case (Resolved t)
          let ?d = "deliver ?w1 c p text t"
          have start: "translateAndSpeak w c text = ?w1\<lparr>jobs := [AfterTranslate c p text t]\<rparr>"
            using \<open>\<not> (isProcessing (conns w c) \<or> text = [])\<close> session partner lang Resolved
              assms(1)
            by (simp add: translateAndSpeak_def Let_def)
          have run: "translateAndSpeakRun w c text tr sy =
              afterTts ?d c p (sy t (myLanguage (conns ?d p)))"
            using \<open>\<not> (isProcessing (conns w c) \<or> text = [])\<close> session partner lang Resolved
            by (simp add: translateAndSpeakRun_def Let_def)
          have "drainAll (translateAndSpeak w c text) = afterTranslate ?w1 c p text t"
            using j1 by (simp add: start drainAll_one jobs_Nil_update)
          then have "answerNext tr sy c (drainAll (translateAndSpeak w c text)) =
              afterTts ?d c p (sy t (myLanguage (conns ?d p)))"
            using answerNext_afterTranslate [OF j1 e1] by simp
          moreover have "filter (\<lambda>e. callOwner e = c) (engine ?d) = []"
            using assms(2) by simp
          ultimately show ?thesis
            by (simp add: run answerNext_idle)
        next
          case (CallEngine x f l)
          then have x: "x = text"
            by (simp add: translate_def Let_def split: if_splits)
          let ?t = "translated text (tr text f l)"
          let ?d = "deliver ?w1 c p text ?t"
          let ?a = "?w1\<lparr>engine := engine w @ [TranslateCall c p text f l]\<rparr>"
          have start: "translateAndSpeak w c text = ?a"
            using \<open>\<not> (isProcessing (conns w c) \<or> text = [])\<close> session partner lang CallEngine
            by (simp add: translateAndSpeak_def Let_def)
          have run: "translateAndSpeakRun w c text tr sy =
              afterTts ?d c p (sy ?t (myLanguage (conns ?d p)))"
            using \<open>\<not> (isProcessing (conns w c) \<or> text = [])\<close> session partner lang CallEngine x
            by (simp add: translateAndSpeakRun_def Let_def)
          have ja: "jobs ?a = []" and ea: "engine ?a = engine w @ [TranslateCall c p text f l]"
            using assms(1) by simp_all
          have "drainAll (translateAndSpeak w c text) = ?a"
            using ja by (simp only: start drainAll_idle)
          moreover have "answerNext tr sy c ?a = answer tr sy ?a (TranslateCall c p text f l)"
            using assms(2) ea by (intro answerNext_last [where es = "engine w"]) simp_all
          moreover have "answer tr sy ?a (TranslateCall c p text f l) =
              afterTranslate (?a\<lparr>engine := engine w\<rparr>) c p text ?t"
            using ja ea assms(2) by (rule answer_translate)
          moreover have "?a\<lparr>engine := engine w\<rparr> = ?w1"
            by (simp add: engine_same_update)
          ultimately have "answerNext tr sy c (drainAll (translateAndSpeak w c text)) =
              afterTranslate ?w1 c p text ?t"
            by simp
          then have "answerNext tr sy c (answerNext tr sy c (drainAll (translateAndSpeak w c text))) =
              afterTts ?d c p (sy ?t (myLanguage (conns ?d p)))"
            using answerNext_afterTranslate [OF j1 e1] by simp
          then show ?thesis by (simp add: run)
        qed
      qed
    qed
  qed
qed

lemma toWav_too_long: "toWav (replicate 4294967260 0) 48000 = Inl RangeError"
  by (simp add: toWav_def andThen_def writeUInt32LE_def writeUInt16LE_def length_writeBytes)

lemmas run_defs =
  translateAndSpeakRun_def translate_def langBase_def orElse_def hyphen_def truthy_def
  partnerOf_def lookupSession_def updateConn_def deliver_def sendToUI_def afterTts_def
  translated_def translator_def synthesizer_def js_def Let_def

text \<open>
  C7.  Entered with the flag clear, \<^verbatim>\<open>_translateAndSpeak\<close> run to its end leaves the
  flag clear, whatever the state (session or partner missing, partner without a
  language) and whatever the services answer (a translation or a failure, audio, no
  audio, or audio for which \<^verbatim>\<open>_toWav\<close> throws).  In the stepwise run, which
  coincides with this run when nothing happens in between (lemma \<open>run_by_turns\<close>), the
  last resumption clears the flag from any state, and a call that returns with the
  flag set has left exactly one suspended round behind.
\<close>

theorem processing_flag_released:
  assumes "\<not> isProcessing (conns w c)"
  shows "\<not> isProcessing (conns (translateAndSpeakRun w c text tr sy) c) \<and>
         \<not> isProcessing (conns (afterTts v c p audio) c) \<and>
         (isProcessing (conns (translateAndSpeak w c text) c) \<longrightarrow>
            inFlight (translateAndSpeak w c text) c = inFlight w c + 1)"
  using assms
  by (simp add: translateAndSpeakRun_releases afterTts_frame translateAndSpeak_suspends)

theorem processing_flag_released_witness:
  "\<not> isProcessing (conns (callWorld ''es'' []) 0) \<and>
   \<not> isProcessing (conns (translateAndSpeakRun (callWorld ''es'' []) 0 (js ''I am'') translator
        (synthesizer [1, 2])) 0) \<and>
   sent (ws (conns (translateAndSpeakRun (callWorld ''es'' []) 0 (js ''I am'') translator
        (synthesizer [1, 2])) 1)) =
     [Translation (js ''I am'') (js ''Yo soy'') (Some (js ''caller'')) (Some (js ''en''))
        (Some (js ''es'')),
      AudioPlayback exampleWav] \<and>
   \<not> isProcessing (conns (translateAndSpeakRun (callWorld ''es'' []) 0 (js ''I am'') translator
        (synthesizer (replicate 4294967260 0))) 0) \<and>
   sent (ws (conns (translateAndSpeakRun (callWorld ''es'' []) 0 (js ''I am'') translator
        (synthesizer (replicate 4294967260 0))) 1)) =
     [Translation (js ''I am'') (js ''Yo soy'') (Some (js ''caller'')) (Some (js ''en''))
        (Some (js ''es''))]"
proof -
  let ?w = "callWorld ''es'' []"
  have idle: "\<not> isProcessing (conns ?w 0)"
    by (simp add: example_defs)
  have ok: "sent (ws (conns (translateAndSpeakRun ?w 0 (js ''I am'') translator
        (synthesizer [1, 2])) 1)) =
     [Translation (js ''I am'') (js ''Yo soy'') (Some (js ''caller'')) (Some (js ''en''))
        (Some (js ''es'')),
      AudioPlayback exampleWav]"
    by (simp add: example_defs run_defs toWav_example)
  have thrown: "sent (ws (conns (translateAndSpeakRun ?w 0 (js ''I am'') translator
        (synthesizer (replicate 4294967260 0))) 1)) =
     [Translation (js ''I am'') (js ''Yo soy'') (Some (js ''caller'')) (Some (js ''en''))
        (Some (js ''es''))]"
    by (simp add: example_defs run_defs toWav_too_long)
  show ?thesis
    using processing_flag_released [OF idle, of "js ''I am''" translator "synthesizer [1, 2]"]
      processing_flag_released [OF idle, of "js ''I am''" translator
        "synthesizer (replicate 4294967260 0)"]
      idle ok thrown
    by simp
qed

section \<open>Teardown\<close>

lemma flushPending_pending:
  "sentence x \<noteq> [] \<Longrightarrow> sentence x \<noteq> lastSentence x \<Longrightarrow>
   flushPending x =
     (x\<lparr>sentenceTimer := False, lastSentence := trim (sentence x), sentence := []\<rparr>,
      Some (trim (sentence x)))"
  by (simp add: flushPending_def finalizeSentence_def Let_def)

lemma translateAndSpeak_starts:
  assumes "\<not> isProcessing (conns w c)" and "text \<noteq> []"
    and "lookupSession w (roomId (conns w c)) = Some s"
    and "partnerOf (conns w c) s = Some p" and "p \<noteq> c"
    and "truthy (myLanguage (conns w p))"
  shows "translateAndSpeak w c text =
           (case translate text (myLanguage (conns w c)) (myLanguage (conns w p)) of
              Resolved t \<Rightarrow>
                (updateConn w c (\<lambda>x. x\<lparr>isProcessing := True\<rparr>))
                  \<lparr>jobs := jobs w @ [AfterTranslate c p text t]\<rparr>
            | CallEngine t f l \<Rightarrow>
                (updateConn w c (\<lambda>x. x\<lparr>isProcessing := True\<rparr>))
                  \<lparr>engine := engine w @ [TranslateCall c p text f l]\<rparr>)"
proof -
  have "partnerOf ((conns w c)\<lparr>isProcessing := True\<rparr>) s = Some p"
    using assms(4) by (simp add: partnerOf_def)
  then show ?thesis
    using assms(1,2,3,5,6)
    by (simp add: translateAndSpeak_def Let_def split: translateStep.splits)
qed

lemma cleanup_pending:
  assumes "trim (sentence (conns w c)) \<noteq> []"
    and "sentence (conns w c) \<noteq> lastSentence (conns w c)"
    and "\<not> isProcessing (conns w c)"
    and "lookupSession w (roomId (conns w c)) = Some s"
    and "partnerOf (conns w c) s = Some p" and "p \<noteq> c"
    and "truthy (myLanguage (conns w p))"
  shows "cleanup w c =
     (let x = conns w c; sen = trim (sentence x);
          w0 = w\<lparr>conns := (conns w)(c := x\<lparr>sentenceTimer := False, lastSentence := sen, sentence := []\<rparr>)\<rparr>;
          w1 = translateAndSpeak w0 c sen;
          w2 = updateConn w1 c stopStream
      in w2\<lparr>jobs := jobs w2 @ [AfterStopStream c]\<rparr>)"
proof -
  have "sentence (conns w c) \<noteq> []"
    using assms(1) by (auto simp: trim_def)
  then show ?thesis
    using assms(2) by (simp add: cleanup_def flushPending_pending relay_def Let_def)
qed

lemma sent_afterTranslate:
  assumes "p \<noteq> c" and "readyState (ws (conns v p)) = 1"
  shows "sent (ws (conns (afterTranslate v c p t tr) p)) =
           sent (ws (conns v p)) @
             [Translation t tr (userType (conns v c)) (myLanguage (conns v c))
                (myLanguage (conns v p))]"
  using assms by (simp add: afterTranslate_def deliver_def Let_def sendToUI_def)

lemma sent_afterStopStream:
  assumes "lookupSession v (roomId (conns v c)) = Some s"
    and "partnerOf (conns v c) s = Some p" and "p \<noteq> c"
    and "readyState (ws (conns v p)) = 1"
  shows "sent (ws (conns (afterStopStream v c) p)) = sent (ws (conns v p)) @ [UserLeft]"
proof -
  obtain r where r: "roomId (conns v c) = Some r" and s: "activeSessions v r = Some s"
    using assms(1) by (auto simp: lookupSession_def split: option.splits)
  let ?s1 = "if callerConnection s = Some c then s\<lparr>callerConnection := None\<rparr> else s"
  let ?s2 = "if receiverConnection ?s1 = Some c then ?s1\<lparr>receiverConnection := None\<rparr> else ?s1"
  have d: "detach v c = v\<lparr>activeSessions := (activeSessions v)(r \<mapsto> ?s2)\<rparr>"
    by (simp add: detach_def r s Let_def)
  have p: "partnerOf (conns v c) ?s2 = Some p"
    using assms(2,3) by (auto simp: partnerOf_def split: if_splits)
  show ?thesis
    using assms(3,4) p
    by (simp add: afterStopStream_def d notifyPartner_def lookupSession_def r updateConn_def)
qed

lemma cleanup_conn:
  assumes "trim (sentence (conns w c)) \<noteq> []"
    and "sentence (conns w c) \<noteq> lastSentence (conns w c)"
    and "\<not> isProcessing (conns w c)"
    and "lookupSession w (roomId (conns w c)) = Some s"
    and "partnerOf (conns w c) s = Some p" and "p \<noteq> c"
    and "truthy (myLanguage (conns w p))"
    and "jobs w = []"
  shows "\<exists>k e. cleanup w c =
           w\<lparr>conns := (conns w)
                (c := stopStream ((conns w c)\<lparr>sentenceTimer := False,
                       lastSentence := trim (sentence (conns w c)), sentence := [],
                       isProcessing := True\<rparr>)),
              jobs := k @ [AfterStopStream c], engine := engine w @ e\<rparr> \<and>
           (case translate (trim (sentence (conns w c))) (myLanguage (conns w c))
                   (myLanguage (conns w p)) of
              Resolved t \<Rightarrow> k = [AfterTranslate c p (trim (sentence (conns w c))) t] \<and> e = []
            | CallEngine t f l \<Rightarrow>
                k = [] \<and> e = [TranslateCall c p (trim (sentence (conns w c))) f l])"
proof -
  let ?x = "conns w c"
  let ?sen = "trim (sentence ?x)"
  let ?w0 = "w\<lparr>conns := (conns w)(c := ?x\<lparr>sentenceTimer := False, lastSentence := ?sen,
      sentence := []\<rparr>)\<rparr>"
  have cl: "cleanup w c =
      (let w1 = translateAndSpeak ?w0 c ?sen; w2 = updateConn w1 c stopStream
       in w2\<lparr>jobs := jobs w2 @ [AfterStopStream c]\<rparr>)"
    using cleanup_pending [OF assms(1-7)] by (simp add: Let_def)
  have st: "translateAndSpeak ?w0 c ?sen =
      (case translate ?sen (myLanguage (conns ?w0 c)) (myLanguage (conns ?w0 p)) of
         Resolved t \<Rightarrow>
           (updateConn ?w0 c (\<lambda>x. x\<lparr>isProcessing := True\<rparr>))
             \<lparr>jobs := jobs ?w0 @ [AfterTranslate c p ?sen t]\<rparr>
       | CallEngine t f l \<Rightarrow>
           (updateConn ?w0 c (\<lambda>x. x\<lparr>isProcessing := True\<rparr>))
             \<lparr>engine := engine ?w0 @ [TranslateCall c p ?sen f l]\<rparr>)"
    using assms by (intro translateAndSpeak_starts [where s = s]) simp_all
  show ?thesis
  proof (cases "translate ?sen (myLanguage ?x) (myLanguage (conns w p))")
    case (Resolved t)
    then show ?thesis
      using assms(6,8) by (simp add: cl st Let_def updateConn_def)
  next
    case (CallEngine t f l)
    then show ?thesis
      using assms(6,8) by (simp add: cl st Let_def updateConn_def)
  qed
qed

lemmas relay_defs =
  cleanup_def flushPending_def finalizeSentence_def relay_def translateAndSpeak_def
  translate_def langBase_def orElse_def hyphen_def truthy_def partnerOf_def lookupSession_def
  updateConn_def stopStream_def drainAll_def afterTranslate_def deliver_def sendToUI_def
  afterStopStream_def detach_def notifyPartner_def translateSettles_def translated_def
  trim_def isWhiteSpace_def js_def Let_def

text \<open>
  The round that \<^verbatim>\<open>cleanup\<close> starts when no round is in flight and the partner has a
  language.
\<close>

lemma teardown_round_started:
  assumes "trim (sentence (conns w c)) \<noteq> []"
    and "sentence (conns w c) \<noteq> lastSentence (conns w c)"
    and "\<not> isProcessing (conns w c)"
    and "lookupSession w (roomId (conns w c)) = Some s"
    and "partnerOf (conns w c) s = Some p" and "p \<noteq> c"
    and "truthy (myLanguage (conns w p))" and "readyState (ws (conns w p)) = 1"
    and "jobs w = []"
  shows
    "lastSentence (conns (cleanup w c) c) = trim (sentence (conns w c)) \<and>
     sentence (conns (cleanup w c) c) = [] \<and> isProcessing (conns (cleanup w c) c) \<and>
     inFlight (cleanup w c) c = inFlight w c + 1 \<and>
     (langBase (myLanguage (conns w c)) = langBase (myLanguage (conns w p)) \<longrightarrow>
        sent (ws (conns (drainAll (cleanup w c)) p)) =
          sent (ws (conns w p)) @
            [Translation (trim (sentence (conns w c))) (trim (sentence (conns w c)))
               (userType (conns w c)) (myLanguage (conns w c)) (myLanguage (conns w p)),
             UserLeft]) \<and>
     (langBase (myLanguage (conns w c)) \<noteq> langBase (myLanguage (conns w p)) \<longrightarrow>
        sent (ws (conns (drainAll (cleanup w c)) p)) = sent (ws (conns w p)) @ [UserLeft] \<and>
        engine (drainAll (cleanup w c)) =
          engine w @
            [TranslateCall c p (trim (sentence (conns w c)))
               (langBase (myLanguage (conns w c))) (langBase (myLanguage (conns w p)))] \<and>
        sent (ws (conns (drainAll (translateSettles (drainAll (cleanup w c))
                (TranslateCall c p (trim (sentence (conns w c)))
                   (langBase (myLanguage (conns w c))) (langBase (myLanguage (conns w p))))
                outcome)) p)) =
          sent (ws (conns w p)) @
            [UserLeft,
             Translation (trim (sentence (conns w c)))
               (translated (trim (sentence (conns w c))) outcome)
               (userType (conns w c)) (myLanguage (conns w c)) (myLanguage (conns w p))])"
proof -
  let ?x = "conns w c"
  let ?sen = "trim (sentence ?x)"
  let ?from = "myLanguage ?x"
  let ?to = "myLanguage (conns w p)"
  let ?C = "stopStream (?x\<lparr>sentenceTimer := False, lastSentence := ?sen, sentence := [],
              isProcessing := True\<rparr>)"
  obtain k e where cl: "cleanup w c =
        w\<lparr>conns := (conns w)(c := ?C), jobs := k @ [AfterStopStream c], engine := engine w @ e\<rparr>"
    and ke: "case translate ?sen ?from ?to of
               Resolved t \<Rightarrow> k = [AfterTranslate c p ?sen t] \<and> e = []
             | CallEngine t f l \<Rightarrow> k = [] \<and> e = [TranslateCall c p ?sen f l]"
    using cleanup_conn [OF assms(1-7) assms(9)] by blast
  let ?W = "w\<lparr>conns := (conns w)(c := ?C), jobs := k @ [AfterStopStream c],
              engine := engine w @ e\<rparr>"
  have one: "length k + length e = 1"
    using ke by (auto split: translateStep.splits)
  have own: "\<forall>j \<in> set k. jobOwner j = Some c" "\<forall>j \<in> set e. callOwner j = c"
    using ke by (auto split: translateStep.splits)
  have sync: "lastSentence (conns (cleanup w c) c) = ?sen \<and>
     sentence (conns (cleanup w c) c) = [] \<and> isProcessing (conns (cleanup w c) c) \<and>
     inFlight (cleanup w c) c = inFlight w c + 1"
    using one own assms(9) by (simp add: cl stopStream_def inFlight_def)
  have same: "sent (ws (conns (drainAll (cleanup w c)) p)) =
          sent (ws (conns w p)) @ [Translation ?sen ?sen (userType ?x) ?from ?to, UserLeft]"
    if "langBase ?from = langBase ?to"
  proof -
    have "translate ?sen ?from ?to = Resolved ?sen"
      using that by (simp add: translate_def)
    with ke have k: "k = [AfterTranslate c p ?sen ?sen]" and e: "e = []" by simp_all
    let ?v = "(afterTranslate (?W\<lparr>jobs := [AfterStopStream c]\<rparr>) c p ?sen ?sen)\<lparr>jobs := []\<rparr>"
    have dr: "drainAll (cleanup w c) = afterStopStream ?v c"
      by (simp add: cl k drainAll_def afterTranslate_frame)
    have v1: "sent (ws (conns ?v p)) =
        sent (ws (conns w p)) @ [Translation ?sen ?sen (userType ?x) ?from ?to]"
      using assms(6,8) by (simp add: sent_afterTranslate)
    have v2: "lookupSession ?v (roomId (conns ?v c)) = Some s"
      using assms(4) by (simp add: afterTranslate_conn lookupSession_def split: option.splits)
    have v3: "partnerOf (conns ?v c) s = Some p"
      using assms(5) by (simp add: partnerOf_def afterTranslate_conn)
    have v4: "readyState (ws (conns ?v p)) = 1"
      using assms(6,8) by (simp add: afterTranslate_conn)
    show ?thesis
      using sent_afterStopStream [OF v2 v3 assms(6) v4] v1 by (simp add: dr)
  qed
  have other: "sent (ws (conns (drainAll (cleanup w c)) p)) = sent (ws (conns w p)) @ [UserLeft] \<and>
        engine (drainAll (cleanup w c)) =
          engine w @ [TranslateCall c p ?sen (langBase ?from) (langBase ?to)] \<and>
        sent (ws (conns (drainAll (translateSettles (drainAll (cleanup w c))
                (TranslateCall c p ?sen (langBase ?from) (langBase ?to)) outcome)) p)) =
          sent (ws (conns w p)) @
            [UserLeft, Translation ?sen (translated ?sen outcome) (userType ?x) ?from ?to]"
    if "langBase ?from \<noteq> langBase ?to"
  proof -
    let ?call = "TranslateCall c p ?sen (langBase ?from) (langBase ?to)"
    have "translate ?sen ?from ?to = CallEngine ?sen (langBase ?from) (langBase ?to)"
      using that by (simp add: translate_def)
    with ke have k: "k = []" and e: "e = [?call]" by simp_all
    let ?v = "?W\<lparr>jobs := []\<rparr>"
    have dr: "drainAll (cleanup w c) = afterStopStream ?v c"
      by (simp add: cl k drainAll_def)
    have v2: "lookupSession ?v (roomId (conns ?v c)) = Some s"
      using assms(4) by (simp add: lookupSession_def split: option.splits)
    have v3: "partnerOf (conns ?v c) s = Some p"
      using assms(5) by (simp add: partnerOf_def)
    have v4: "readyState (ws (conns ?v p)) = 1"
      using assms(6,8) by simp
    have left: "sent (ws (conns (afterStopStream ?v c) p)) = sent (ws (conns w p)) @ [UserLeft]"
      using sent_afterStopStream [OF v2 v3 assms(6) v4] assms(6) by simp
    have eng: "engine (afterStopStream ?v c) = engine w @ [?call]"
      by (simp add: afterStopStream_frame e)
    let ?u = "afterStopStream ?v c"
    have settle: "translateSettles ?u ?call outcome =
        ?u\<lparr>engine := remove1 ?call (engine w @ [?call]),
            jobs := [AfterTranslate c p ?sen (translated ?sen outcome)]\<rparr>"
      by (simp add: translateSettles_def afterStopStream_frame e)
    let ?t = "?u\<lparr>engine := remove1 ?call (engine w @ [?call]), jobs := []\<rparr>"
    have dr2: "drainAll (translateSettles ?u ?call outcome) =
        afterTranslate ?t c p ?sen (translated ?sen outcome)"
      by (simp only: settle) (simp add: drainAll_def)
    have u1: "readyState (ws (conns ?t p)) = 1"
      using v4 by (simp add: afterStopStream_conn)
    have u2: "userType (conns ?t c) = userType ?x \<and> myLanguage (conns ?t c) = ?from \<and>
        myLanguage (conns ?t p) = ?to"
      using assms(6) by (simp add: afterStopStream_conn)
    have t1: "sent (ws (conns ?t p)) = sent (ws (conns w p)) @ [UserLeft]"
      using left by simp
    have "sent (ws (conns (drainAll (translateSettles ?u ?call outcome)) p)) =
        sent (ws (conns (afterTranslate ?t c p ?sen (translated ?sen outcome)) p))"
      by (simp only: dr2)
    also have "\<dots> = sent (ws (conns ?t p)) @
          [Translation ?sen (translated ?sen outcome) (userType (conns ?t c))
             (myLanguage (conns ?t c)) (myLanguage (conns ?t p))]"
      using assms(6) u1 by (rule sent_afterTranslate)
    also have "\<dots> = sent (ws (conns w p)) @
          [UserLeft, Translation ?sen (translated ?sen outcome) (userType ?x) ?from ?to]"
      using t1 u2 by simp
    finally have after: "sent (ws (conns (drainAll (translateSettles ?u ?call outcome)) p)) =
        sent (ws (conns w p)) @
          [UserLeft, Translation ?sen (translated ?sen outcome) (userType ?x) ?from ?to]" .
    show ?thesis
      using left eng after by (simp add: dr)
  qed
  from sync same other show ?thesis by blast
qed

lemma processing_clear: "\<not> isProcessing x \<Longrightarrow> x\<lparr>isProcessing := False\<rparr> = x"
  by (cases x) simp

lemma translateAndSpeak_returns:
  assumes "isProcessing (conns w c) \<or>
     (lookupSession w (roomId (conns w c)) = Some s \<and> partnerOf (conns w c) s = Some p \<and>
      p \<noteq> c \<and> \<not> truthy (myLanguage (conns w p)))"
  shows "translateAndSpeak w c text = w"
proof (cases "isProcessing (conns w c) \<or> text = []")
  case True
  then show ?thesis by (simp add: translateAndSpeak_def)
next
  case False
  with assms have a: "lookupSession w (roomId (conns w c)) = Some s"
    "partnerOf (conns w c) s = Some p" "p \<noteq> c" "\<not> truthy (myLanguage (conns w p))"
    by simp_all
  have "partnerOf ((conns w c)\<lparr>isProcessing := True\<rparr>) s = Some p"
    using a(2) by (simp add: partnerOf_def)
  then have "translateAndSpeak w c text =
      updateConn (updateConn w c (\<lambda>x. x\<lparr>isProcessing := True\<rparr>)) c (\<lambda>x. x\<lparr>isProcessing := False\<rparr>)"
    using False a by (simp add: translateAndSpeak_def Let_def)
  also have "\<dots> = w"
    using False by (simp add: updateConn_def processing_clear)
  finally show ?thesis .
qed

lemma cleanup_dropped:
  assumes "sentence (conns w c) \<noteq> []"
    and "sentence (conns w c) \<noteq> lastSentence (conns w c)"
    and "isProcessing (conns w c) \<or> \<not> truthy (myLanguage (conns w p))"
    and "lookupSession w (roomId (conns w c)) = Some s"
    and "partnerOf (conns w c) s = Some p" and "p \<noteq> c"
    and "jobs w = []"
  shows "cleanup w c =
     w\<lparr>conns := (conns w)
          (c := stopStream ((conns w c)\<lparr>sentenceTimer := False,
                 lastSentence := trim (sentence (conns w c)), sentence := []\<rparr>)),
        jobs := [AfterStopStream c]\<rparr>"
proof -
  let ?x = "conns w c"
  let ?sen = "trim (sentence ?x)"
  let ?w0 = "w\<lparr>conns := (conns w)(c := ?x\<lparr>sentenceTimer := False, lastSentence := ?sen,
      sentence := []\<rparr>)\<rparr>"
  have "isProcessing (conns ?w0 c) \<or>
     (lookupSession ?w0 (roomId (conns ?w0 c)) = Some s \<and> partnerOf (conns ?w0 c) s = Some p \<and>
      p \<noteq> c \<and> \<not> truthy (myLanguage (conns ?w0 p)))"
    using assms(3-6) by auto
  then have r: "translateAndSpeak ?w0 c ?sen = ?w0"
    by (rule translateAndSpeak_returns)
  have "cleanup w c =
      (let w1 = translateAndSpeak ?w0 c ?sen; w2 = updateConn w1 c stopStream
       in w2\<lparr>jobs := jobs w2 @ [AfterStopStream c]\<rparr>)"
    using assms(1,2) by (simp add: cleanup_def flushPending_pending relay_def Let_def)
  then show ?thesis
    using assms(7) by (simp add: r Let_def updateConn_def)
qed

lemma teardown_dropped:
  assumes "sentence (conns w c) \<noteq> []"
    and "sentence (conns w c) \<noteq> lastSentence (conns w c)"
    and "isProcessing (conns w c) \<or> \<not> truthy (myLanguage (conns w p))"
    and "lookupSession w (roomId (conns w c)) = Some s"
    and "partnerOf (conns w c) s = Some p" and "p \<noteq> c"
    and "readyState (ws (conns w p)) = 1"
    and "jobs w = []"
  shows "lastSentence (conns (cleanup w c) c) = trim (sentence (conns w c)) \<and>
     sentence (conns (cleanup w c) c) = [] \<and>
     isProcessing (conns (cleanup w c) c) = isProcessing (conns w c) \<and>
     inFlight (cleanup w c) c = inFlight w c \<and>
     jobs (cleanup w c) = [AfterStopStream c] \<and>
     engine (cleanup w c) = engine w \<and>
     engine (drainAll (cleanup w c)) = engine w \<and>
     sent (ws (conns (drainAll (cleanup w c)) p)) = sent (ws (conns w p)) @ [UserLeft]"
proof -
  let ?C = "stopStream ((conns w c)\<lparr>sentenceTimer := False,
      lastSentence := trim (sentence (conns w c)), sentence := []\<rparr>)"
  let ?W = "w\<lparr>conns := (conns w)(c := ?C), jobs := [AfterStopStream c]\<rparr>"
  have cl: "cleanup w c = ?W"
    using assms(1-6,8) by (rule cleanup_dropped)
  let ?v = "?W\<lparr>jobs := []\<rparr>"
  have dr: "drainAll (cleanup w c) = afterStopStream ?v c"
    by (simp add: cl drainAll_def)
  have v2: "lookupSession ?v (roomId (conns ?v c)) = Some s"
    using assms(4) by (simp add: lookupSession_def split: option.splits)
  have v3: "partnerOf (conns ?v c) s = Some p"
    using assms(5) by (simp add: partnerOf_def)
  have v4: "readyState (ws (conns ?v p)) = 1"
    using assms(6,7) by simp
  have left: "sent (ws (conns (afterStopStream ?v c) p)) = sent (ws (conns w p)) @ [UserLeft]"
    using sent_afterStopStream [OF v2 v3 assms(6) v4] assms(6) by simp
  have eng: "engine (afterStopStream ?v c) = engine w"
    by (simp add: afterStopStream_frame)
  have sync: "lastSentence (conns (cleanup w c) c) = trim (sentence (conns w c)) \<and>
     sentence (conns (cleanup w c) c) = [] \<and>
     isProcessing (conns (cleanup w c) c) = isProcessing (conns w c) \<and>
     inFlight (cleanup w c) c = inFlight w c \<and>
     jobs (cleanup w c) = [AfterStopStream c] \<and>
     engine (cleanup w c) = engine w"
    using assms(8) by (simp add: cl inFlight_def)
  from sync left eng show ?thesis by (simp add: dr)
qed

text \<open>
  C5 (as amended).  Teardown of a connection that holds a sentence different from the
  last emitted one, with a partner whose socket is open, at the start of a turn:
  \<^verbatim>\<open>cleanup\<close> records the sentence as the last emitted one and clears it at once, before
  the stream is stopped.  If a round is in flight, or the partner has no language, the
  relay returns without starting a round: nothing is queued, the engine is not called,
  and the partner receives \<open>user_left\<close> only.  Otherwise a round is started.  When the
  two base language tags are equal, the partner receives the \<open>translation\<close> and then
  \<open>user_left\<close>.  When they differ, the translation engine is called; the partner
  receives \<open>user_left\<close> first and the \<open>translation\<close> when the engine has answered (with
  the original text if the call failed).  The accumulator invariant (kept by every
  handler, lemmas \<open>accInv_newConnection\<close> to \<open>accInv_flushPending\<close>) makes the trimmed
  sentence the sentence itself, and the job queue is empty whenever a turn starts
  (lemma \<open>jobs_drainAll\<close>).
\<close>

theorem teardown_flush_order:
  assumes "sentence (conns w c) \<noteq> []"
    and "sentence (conns w c) \<noteq> lastSentence (conns w c)"
    and "accInv (conns w c)"
    and "lookupSession w (roomId (conns w c)) = Some s"
    and "partnerOf (conns w c) s = Some p" and "p \<noteq> c"
    and "readyState (ws (conns w p)) = 1"
    and "jobs w = []"
  shows
    "trim (sentence (conns w c)) = sentence (conns w c) \<and>
     lastSentence (conns (cleanup w c) c) = sentence (conns w c) \<and>
     sentence (conns (cleanup w c) c) = [] \<and>
     (isProcessing (conns w c) \<or> \<not> truthy (myLanguage (conns w p)) \<longrightarrow>
        isProcessing (conns (cleanup w c) c) = isProcessing (conns w c) \<and>
        inFlight (cleanup w c) c = inFlight w c \<and>
        jobs (cleanup w c) = [AfterStopStream c] \<and>
        engine (cleanup w c) = engine w \<and>
        engine (drainAll (cleanup w c)) = engine w \<and>
        sent (ws (conns (drainAll (cleanup w c)) p)) = sent (ws (conns w p)) @ [UserLeft]) \<and>
     (\<not> isProcessing (conns w c) \<and> truthy (myLanguage (conns w p)) \<longrightarrow>
        isProcessing (conns (cleanup w c) c) \<and>
        inFlight (cleanup w c) c = inFlight w c + 1 \<and>
        (langBase (myLanguage (conns w c)) = langBase (myLanguage (conns w p)) \<longrightarrow>
           sent (ws (conns (drainAll (cleanup w c)) p)) =
             sent (ws (conns w p)) @
               [Translation (sentence (conns w c)) (sentence (conns w c))
                  (userType (conns w c)) (myLanguage (conns w c)) (myLanguage (conns w p)),
                UserLeft]) \<and>
        (langBase (myLanguage (conns w c)) \<noteq> langBase (myLanguage (conns w p)) \<longrightarrow>
           sent (ws (conns (drainAll (cleanup w c)) p)) = sent (ws (conns w p)) @ [UserLeft] \<and>
           engine (drainAll (cleanup w c)) =
             engine w @
               [TranslateCall c p (sentence (conns w c))
                  (langBase (myLanguage (conns w c))) (langBase (myLanguage (conns w p)))] \<and>
           sent (ws (conns (drainAll (translateSettles (drainAll (cleanup w c))
                   (TranslateCall c p (sentence (conns w c))
                      (langBase (myLanguage (conns w c))) (langBase (myLanguage (conns w p))))
                   outcome)) p)) =
             sent (ws (conns w p)) @
               [UserLeft,
                Translation (sentence (conns w c))
                  (translated (sentence (conns w c)) outcome)
                  (userType (conns w c)) (myLanguage (conns w c)) (myLanguage (conns w p))]))"
proof -
  have t: "trim (sentence (conns w c)) = sentence (conns w c)"
    using assms(3) by (simp add: accInv_def trim_id)
  have ne: "trim (sentence (conns w c)) \<noteq> []"
    using assms(1) by (simp add: t)
  show ?thesis
  proof (cases "isProcessing (conns w c) \<or> \<not> truthy (myLanguage (conns w p))")
    case True
    from teardown_dropped [OF assms(1,2) True assms(4-8)] True show ?thesis
      by (simp add: t)
  next
    case False
    then have np: "\<not> isProcessing (conns w c)" and tr: "truthy (myLanguage (conns w p))"
      by simp_all
    from teardown_round_started [OF ne assms(2) np assms(4,5,6) tr assms(7,8), of outcome] False
    show ?thesis
      by (simp add: t)
  qed
qed

lemmas turn_defs =
  turn_def onSttData_def onTimer_def timerFired_def handleSTTData_def sttEvent_def
  firstResult_def transcriptOf_def resetSentenceTimer_def ttsSettles_def afterTts_def space_def

lemma talking_conn0:
  "conns (talkingWorld ''en-GB'') 0 =
     (callerConn [])\<lparr>sentence := js ''I am'', lastSentence := js ''Hello'', sentenceTimer := True,
        isProcessing := True,
        ws := \<lparr>readyState = 1, sent = [Translation (js ''Hello'') (js ''Hello'') (Some (js ''caller''))
           (Some (js ''en'')) (Some (js ''en-GB''))]\<rparr>\<rparr>"
  by (simp add: talkingWorld_def turn_defs example_defs relay_defs)

lemma talking_conn1:
  "conns (talkingWorld ''en-GB'') 1 =
     (receiverConn ''en-GB'')\<lparr>
        ws := \<lparr>readyState = 1, sent = [Translation (js ''Hello'') (js ''Hello'') (Some (js ''caller''))
           (Some (js ''en'')) (Some (js ''en-GB''))]\<rparr>\<rparr>"
  by (simp add: talkingWorld_def turn_defs example_defs relay_defs)

lemma talking_rest:
  "jobs (talkingWorld ''en-GB'') = []"
  "engine (talkingWorld ''en-GB'') = [TtsCall 0 1 (js ''Hello'') (Some (js ''en-GB''))]"
  "activeSessions (talkingWorld ''en-GB'') = [room1 \<mapsto> pairedRoom]"
  by (simp_all add: talkingWorld_def turn_defs example_defs relay_defs)

theorem teardown_flush_order_witness:
  "sent (ws (conns (drainAll (cleanup (callWorld ''en-GB'' ''I am'') 0)) 1)) =
     [Translation (js ''I am'') (js ''I am'') (Some (js ''caller'')) (Some (js ''en''))
        (Some (js ''en-GB'')),
      UserLeft] \<and>
   sent (ws (conns (drainAll (cleanup (callWorld ''es'' ''I am'') 0)) 1)) = [UserLeft] \<and>
   engine (drainAll (cleanup (callWorld ''es'' ''I am'') 0)) =
     [TranslateCall 0 1 (js ''I am'') (js ''en'') (js ''es'')] \<and>
   isProcessing (conns (talkingWorld ''en-GB'') 0) \<and>
   sentence (conns (talkingWorld ''en-GB'') 0) = js ''I am'' \<and>
   sent (ws (conns (drainAll (cleanup (talkingWorld ''en-GB'') 0)) 1)) =
     sent (ws (conns (talkingWorld ''en-GB'') 1)) @ [UserLeft] \<and>
   engine (drainAll (cleanup (talkingWorld ''en-GB'') 0)) = engine (talkingWorld ''en-GB'') \<and>
   \<not> truthy (myLanguage (conns (callWorld [] ''I am'') 1)) \<and>
   sent (ws (conns (drainAll (cleanup (callWorld [] ''I am'') 0)) 1)) = [UserLeft] \<and>
   engine (drainAll (cleanup (callWorld [] ''I am'') 0)) = []"
proof -
  let ?g = "callWorld ''en-GB'' ''I am''"
  let ?e = "callWorld ''es'' ''I am''"
  let ?n = "callWorld [] ''I am''"
  let ?b = "talkingWorld ''en-GB''"
  have s: "sentence (conns ?g 0) = js ''I am''" "sentence (conns ?e 0) = js ''I am''"
    "sentence (conns ?n 0) = js ''I am''" "sentence (conns ?b 0) = js ''I am''"
    by (simp_all add: example_defs talking_conn0)
  have h1: "sentence (conns ?g 0) \<noteq> []" "sentence (conns ?e 0) \<noteq> []"
    "sentence (conns ?n 0) \<noteq> []" "sentence (conns ?b 0) \<noteq> []"
    by (simp_all add: s) (simp_all add: js_def)
  have h2: "sentence (conns ?g 0) \<noteq> lastSentence (conns ?g 0)"
    "sentence (conns ?e 0) \<noteq> lastSentence (conns ?e 0)"
    "sentence (conns ?n 0) \<noteq> lastSentence (conns ?n 0)"
    "sentence (conns ?b 0) \<noteq> lastSentence (conns ?b 0)"
    by (simp_all add: example_defs talking_conn0 js_def)
  have h3: "accInv (conns ?g 0)" "accInv (conns ?e 0)" "accInv (conns ?n 0)" "accInv (conns ?b 0)"
    by (simp_all add: accInv_def trimmed_def example_defs talking_conn0 isWhiteSpace_def js_def)
  have h4: "lookupSession ?g (roomId (conns ?g 0)) = Some pairedRoom"
    "lookupSession ?e (roomId (conns ?e 0)) = Some pairedRoom"
    "lookupSession ?n (roomId (conns ?n 0)) = Some pairedRoom"
    "lookupSession ?b (roomId (conns ?b 0)) = Some pairedRoom"
    by (simp_all add: talking_conn0 talking_rest lookupSession_def example_defs)
  have h5: "partnerOf (conns ?g 0) pairedRoom = Some 1" "partnerOf (conns ?e 0) pairedRoom = Some 1"
    "partnerOf (conns ?n 0) pairedRoom = Some 1" "partnerOf (conns ?b 0) pairedRoom = Some 1"
    by (simp_all add: talking_conn0 example_defs partnerOf_def)
  have h6: "(1::nat) \<noteq> 0" by simp
  have h7: "readyState (ws (conns ?g 1)) = 1" "readyState (ws (conns ?e 1)) = 1"
    "readyState (ws (conns ?n 1)) = 1" "readyState (ws (conns ?b 1)) = 1"
    by (simp_all only: talking_conn1) (simp_all add: example_defs)
  have h8: "jobs ?g = []" "jobs ?e = []" "jobs ?n = []" "jobs ?b = []"
    by (simp_all add: talking_rest example_defs)
  have p: "\<not> isProcessing (conns ?g 0)" "\<not> isProcessing (conns ?e 0)"
    "\<not> isProcessing (conns ?n 0)" "isProcessing (conns ?b 0)"
    by (simp_all add: talking_conn0 example_defs)
  have l: "truthy (myLanguage (conns ?g 1))" "truthy (myLanguage (conns ?e 1))"
    "\<not> truthy (myLanguage (conns ?n 1))"
    by (simp_all add: example_defs truthy_def js_def)
  have b: "langBase (myLanguage (conns ?g 0)) = langBase (myLanguage (conns ?g 1))"
    "langBase (myLanguage (conns ?e 0)) \<noteq> langBase (myLanguage (conns ?e 1))"
    "langBase (myLanguage (conns ?e 0)) = js ''en''" "langBase (myLanguage (conns ?e 1)) = js ''es''"
    by (simp_all add: example_defs langBase_def orElse_def hyphen_def js_def)
  have f: "sent (ws (conns ?g 1)) = []" "sent (ws (conns ?e 1)) = []" "sent (ws (conns ?n 1)) = []"
    "engine ?e = []" "engine ?n = []"
    "userType (conns ?g 0) = Some (js ''caller'')" "myLanguage (conns ?g 0) = Some (js ''en'')"
    "myLanguage (conns ?g 1) = Some (js ''en-GB'')"
    by (simp_all add: example_defs)
  show ?thesis
    using teardown_flush_order [OF h1(1) h2(1) h3(1) h4(1) h5(1) h6 h7(1) h8(1)]
      teardown_flush_order [OF h1(2) h2(2) h3(2) h4(2) h5(2) h6 h7(2) h8(2)]
      teardown_flush_order [OF h1(3) h2(3) h3(3) h4(3) h5(3) h6 h7(3) h8(3)]
      teardown_flush_order [OF h1(4) h2(4) h3(4) h4(4) h5(4) h6 h7(4) h8(4)]
      s p l b f
    by simp
qed

text \<open>
  C5 as stated fails in three ways.  A caller speaking \<open>en\<close> hangs up with \<open>I am\<close>
  pending while the partner speaks \<open>es\<close>: after \<^verbatim>\<open>cleanup\<close> and the jobs it queued the
  partner has received \<open>user_left\<close> only, and the translation follows the engine's
  answer.  A caller hangs up with \<open>I am\<close> pending while the round for \<open>Hello\<close> is in
  flight: the relay drops \<open>I am\<close>, and when the round has ended (the synthesis service
  has answered, here with a failure) the partner has received \<open>Hello\<close> and \<open>user_left\<close>,
  with no call pending and no sentence held.  A caller hangs up while the partner has
  no language: the partner receives \<open>user_left\<close> only.
\<close>

theorem teardown_order_counterexample:
  "sentence (conns (callWorld ''es'' ''I am'') 0) \<noteq> [] \<and>
   sentence (conns (callWorld ''es'' ''I am'') 0) \<noteq> lastSentence (conns (callWorld ''es'' ''I am'') 0) \<and>
   sent (ws (conns (callWorld ''es'' ''I am'') 1)) = [] \<and>
   sent (ws (conns (drainAll (cleanup (callWorld ''es'' ''I am'') 0)) 1)) = [UserLeft] \<and>
   sent (ws (conns (drainAll (translateSettles (drainAll (cleanup (callWorld ''es'' ''I am'') 0))
      (TranslateCall 0 1 (js ''I am'') (js ''en'') (js ''es'')) (Some (js ''Yo soy'')))) 1)) =
     [UserLeft,
      Translation (js ''I am'') (js ''Yo soy'') (Some (js ''caller'')) (Some (js ''en''))
        (Some (js ''es''))] \<and>
   sentence (conns (talkingWorld ''en-GB'') 0) = js ''I am'' \<and>
   lastSentence (conns (talkingWorld ''en-GB'') 0) = js ''Hello'' \<and>
   isProcessing (conns (talkingWorld ''en-GB'') 0) \<and>
   engine (talkingWorld ''en-GB'') = [TtsCall 0 1 (js ''Hello'') (Some (js ''en-GB''))] \<and>
   sent (ws (conns (turn (talkingWorld ''en-GB'') (Closed 0)) 1)) =
     [Translation (js ''Hello'') (js ''Hello'') (Some (js ''caller'')) (Some (js ''en''))
        (Some (js ''en-GB'')),
      UserLeft] \<and>
   sent (ws (conns (turn (turn (talkingWorld ''en-GB'') (Closed 0))
      (TtsAnswer (TtsCall 0 1 (js ''Hello'') (Some (js ''en-GB''))) None)) 1)) =
     [Translation (js ''Hello'') (js ''Hello'') (Some (js ''caller'')) (Some (js ''en''))
        (Some (js ''en-GB'')),
      UserLeft] \<and>
   engine (turn (turn (talkingWorld ''en-GB'') (Closed 0))
      (TtsAnswer (TtsCall 0 1 (js ''Hello'') (Some (js ''en-GB''))) None)) = [] \<and>
   sentence (conns (turn (turn (talkingWorld ''en-GB'') (Closed 0))
      (TtsAnswer (TtsCall 0 1 (js ''Hello'') (Some (js ''en-GB''))) None)) 0) = [] \<and>
   lastSentence (conns (turn (turn (talkingWorld ''en-GB'') (Closed 0))
      (TtsAnswer (TtsCall 0 1 (js ''Hello'') (Some (js ''en-GB''))) None)) 0) = js ''I am'' \<and>
   sentence (conns (callWorld [] ''I am'') 0) = js ''I am'' \<and>
   sent (ws (conns (turn (callWorld [] ''I am'') (Closed 0)) 1)) = [UserLeft] \<and>
   engine (turn (callWorld [] ''I am'') (Closed 0)) = []"
  by (simp add: talkingWorld_def turn_defs example_defs relay_defs)

end
